theory Spec2Isabelle
  imports Main "HOL-Library.Sublist" "HOL-Library.Multiset"
begin

section \<open>Values, exceptions and the Python operations the crawler uses\<close>

text \<open>
  The crawler (\<^verbatim>\<open>src/main.py\<close>) works on untyped JSON: the menu, the search responses
  and the leaf records are the dictionaries and lists that \<^verbatim>\<open>json.loads\<close> returns.
  A value is therefore a \<open>json\<close>: \<^verbatim>\<open>None\<close>, a bool, an int, a str, a list or a dict.
  A dict is an association list in insertion order with one entry per key, looked up with
  \<open>map_of\<close>. A str is a \<open>string\<close> holding the UTF-8 bytes of the text, so that prefix,
  suffix and substring tests and percent-encoding are those of Python. JSON numbers with a
  fraction or an exponent (Python floats) and strs with unpaired surrogates, which have no
  UTF-8 encoding, are not represented.
\<close>

datatype json =
    JNull
  | JBool bool
  | JInt int
  | JStr string
  | JList "json list"
  | JDict "(string \<times> json) list"

text \<open>
  A raised exception is a value. \<open>KeyError k\<close> is a missing key \<open>k\<close>; \<open>Raised m\<close> is an
  exception of the HTTP client, of the JSON parser or of the file system with message \<open>m\<close>;
  the other constructors are the exceptions of the interpreter's own operations. All of them are
  instances of \<^verbatim>\<open>Exception\<close>, which is what \<^verbatim>\<open>except Exception\<close> catches; the cancellation
  of a task is not one of them and is not modelled.
\<close>

datatype exn =
    KeyError string
  | TypeError
  | AttributeError
  | ValueError
  | IndexError
  | UnicodeEncodeError
  | Raised string

text \<open>
  The builtins whose results are not determined by the repository's code are taken as
  they come from the interpreter: the text \<^verbatim>\<open>str()\<close> gives for a list or a dict,
  \<^verbatim>\<open>int()\<close> on a str (\<open>None\<close> where it raises \<^verbatim>\<open>ValueError\<close>), \<^verbatim>\<open>json.loads\<close>,
  the message \<^verbatim>\<open>str(e)\<close> of an interpreter exception, and writing a list as JSON to a
  file: \<open>write_json\<close> is \<^verbatim>\<open>json.dumps(..., ensure_ascii=False, indent=2)\<close> followed by
  \<^verbatim>\<open>Path.write_text(..., encoding="utf-8")\<close>, with \<open>None\<close> when the file has been written and
  otherwise the exception raised. The strict encoder raises \<^verbatim>\<open>UnicodeEncodeError\<close> when a str
  to be written holds an unpaired surrogate, and the file system may raise as well; since
  such strs are not represented, the values of the model do not determine whether the write
  raises, and the write is a parameter like the other builtins.
\<close>

record builtins =
  repr_of :: "json \<Rightarrow> string"
  int_of_text :: "string \<Rightarrow> int option"
  json_loads :: "string \<Rightarrow> exn + json"
  message_of :: "exn \<Rightarrow> string"
  write_json :: "json list \<Rightarrow> exn option"

text \<open>Truth value of a value, as tested by \<^verbatim>\<open>if x\<close>, \<^verbatim>\<open>not x\<close> and \<^verbatim>\<open>x or y\<close>.\<close>

fun py_truthy :: "json \<Rightarrow> bool" where
  "py_truthy JNull = False"
| "py_truthy (JBool b) = b"
| "py_truthy (JInt i) = (i \<noteq> 0)"
| "py_truthy (JStr s) = (s \<noteq> [])"
| "py_truthy (JList xs) = (xs \<noteq> [])"
| "py_truthy (JDict kv) = (kv \<noteq> [])"

definition py_or :: "json \<Rightarrow> json \<Rightarrow> json" where
  "py_or x y = (if py_truthy x then x else y)"

text \<open>\<^verbatim>\<open>x.get(k, d)\<close>: only a dict has the method.\<close>

fun dict_get :: "json \<Rightarrow> string \<Rightarrow> json \<Rightarrow> exn + json" where
  "dict_get (JDict kv) k d = Inr (case map_of kv k of Some v \<Rightarrow> v | None \<Rightarrow> d)"
| "dict_get _ k d = Inl AttributeError"

text \<open>\<^verbatim>\<open>x[k]\<close> with a str key \<open>k\<close>.\<close>

fun subscript :: "json \<Rightarrow> string \<Rightarrow> exn + json" where
  "subscript (JDict kv) k = (case map_of kv k of Some v \<Rightarrow> Inr v | None \<Rightarrow> Inl (KeyError k))"
| "subscript _ k = Inl TypeError"

text \<open>
  The code points of a str: a new one starts at every byte that is not a UTF-8
  continuation byte (\<open>0x80\<close> to \<open>0xBF\<close>).
\<close>

definition is_cont :: "char \<Rightarrow> bool" where
  "is_cont c = (128 \<le> (of_char c :: nat) \<and> (of_char c :: nat) < 192)"

function utf8_chars :: "string \<Rightarrow> string list" where
  "utf8_chars [] = []"
| "utf8_chars (c # cs) = (c # takeWhile is_cont cs) # utf8_chars (dropWhile is_cont cs)"
  by pat_completeness auto
termination
  by (relation "measure length") (auto simp: length_dropWhile_le less_Suc_eq_le)

text \<open>The elements a \<^verbatim>\<open>for\<close> loop, a comprehension or \<^verbatim>\<open>list.extend\<close> draws from a value.\<close>

fun py_iter :: "json \<Rightarrow> exn + json list" where
  "py_iter (JList xs) = Inr xs"
| "py_iter (JDict kv) = Inr (map (\<lambda>p. JStr (fst p)) kv)"
| "py_iter (JStr s) = Inr (map JStr (utf8_chars s))"
| "py_iter _ = Inl TypeError"

fun py_int :: "builtins \<Rightarrow> json \<Rightarrow> exn + int" where
  "py_int py (JInt i) = Inr i"
| "py_int py (JBool b) = Inr (if b then 1 else 0)"
| "py_int py (JStr s) = (case int_of_text py s of Some i \<Rightarrow> Inr i | None \<Rightarrow> Inl ValueError)"
| "py_int py _ = Inl TypeError"

fun digits :: "nat \<Rightarrow> string" where
  "digits n = (if n < 10 then [''0123456789'' ! n]
               else digits (n div 10) @ [''0123456789'' ! (n mod 10)])"

definition str_of_int :: "int \<Rightarrow> string" where
  "str_of_int i = (if i < 0 then CHR ''-'' # digits (nat (- i)) else digits (nat i))"

fun py_str :: "builtins \<Rightarrow> json \<Rightarrow> string" where
  "py_str py (JStr s) = s"
| "py_str py JNull = ''None''"
| "py_str py (JBool b) = (if b then ''True'' else ''False'')"
| "py_str py (JInt i) = str_of_int i"
| "py_str py v = repr_of py v"

text \<open>\<^verbatim>\<open>str(e)\<close>: for a \<^verbatim>\<open>KeyError\<close> the quoted key, for \<open>Raised m\<close> the message.\<close>

fun exn_str :: "builtins \<Rightarrow> exn \<Rightarrow> string" where
  "exn_str py (KeyError k) = [CHR 0x27] @ k @ [CHR 0x27]"
| "exn_str py (Raised m) = m"
| "exn_str py e = message_of py e"

text \<open>\<^verbatim>\<open>h in url\<close> on two strs: \<open>h\<close> occurs in \<open>url\<close> as a contiguous run.\<close>

fun is_substr :: "string \<Rightarrow> string \<Rightarrow> bool" where
  "is_substr h [] = (h = [])"
| "is_substr h (c # cs) = (prefix h (c # cs) \<or> is_substr h cs)"

text \<open>
  \<^verbatim>\<open>str.strip()\<close> removes the white space code points of \<^verbatim>\<open>str.isspace\<close> from both ends,
  \<^verbatim>\<open>str.lstrip(chars)\<close> removes from the start every code point that occurs in \<open>chars\<close>.
\<close>

definition py_whitespace :: "string list" where
  "py_whitespace =
     [[CHR 0x09], [CHR 0x0A], [CHR 0x0B], [CHR 0x0C], [CHR 0x0D],
      [CHR 0x1C], [CHR 0x1D], [CHR 0x1E], [CHR 0x1F], [CHR 0x20],
      [CHR 0xC2, CHR 0x85], [CHR 0xC2, CHR 0xA0], [CHR 0xE1, CHR 0x9A, CHR 0x80],
      [CHR 0xE2, CHR 0x80, CHR 0x80], [CHR 0xE2, CHR 0x80, CHR 0x81],
      [CHR 0xE2, CHR 0x80, CHR 0x82], [CHR 0xE2, CHR 0x80, CHR 0x83],
      [CHR 0xE2, CHR 0x80, CHR 0x84], [CHR 0xE2, CHR 0x80, CHR 0x85],
      [CHR 0xE2, CHR 0x80, CHR 0x86], [CHR 0xE2, CHR 0x80, CHR 0x87],
      [CHR 0xE2, CHR 0x80, CHR 0x88], [CHR 0xE2, CHR 0x80, CHR 0x89],
      [CHR 0xE2, CHR 0x80, CHR 0x8A], [CHR 0xE2, CHR 0x80, CHR 0xA8],
      [CHR 0xE2, CHR 0x80, CHR 0xA9], [CHR 0xE2, CHR 0x80, CHR 0xAF],
      [CHR 0xE2, CHR 0x81, CHR 0x9F], [CHR 0xE3, CHR 0x80, CHR 0x80]]"

definition py_lstrip :: "string \<Rightarrow> string \<Rightarrow> string" where
  "py_lstrip chars s = concat (dropWhile (\<lambda>c. c \<in> set (utf8_chars chars)) (utf8_chars s))"

definition py_strip :: "string \<Rightarrow> string" where
  "py_strip s =
     concat (rev (dropWhile (\<lambda>c. c \<in> set py_whitespace)
       (rev (dropWhile (\<lambda>c. c \<in> set py_whitespace) (utf8_chars s)))))"

section \<open>Capture of the menu document\<close>

definition MENU_HINTS :: "string list" where
  "MENU_HINTS = [''main-menu'', ''v3'']"

definition looks_like_menu_json :: "json \<Rightarrow> bool" where
  "looks_like_menu_json data =
     (case data of
        JList xs \<Rightarrow>
          list_ex (\<lambda>x. case x of
                          JDict kv \<Rightarrow> map_of kv ''id'' \<noteq> None \<and> map_of kv ''name'' \<noteq> None
                        | _ \<Rightarrow> False)
                  (take 5 xs)
      | _ \<Rightarrow> False)"

definition is_menu_url :: "string \<Rightarrow> bool" where
  "is_menu_url url = (suffix ''.json'' url \<and> list_all (\<lambda>h. is_substr h url) MENU_HINTS)"

section \<open>Flattening the menu tree\<close>

text \<open>
  The loop of \<open>iter_leaves\<close> ends because every pop either removes a node from the stack
  or replaces a dict by the elements of its \<open>childs\<close> value, which are smaller. The measure
  counts a dict on the stack with all it contains, and any other value (on which the next
  \<^verbatim>\<open>.get\<close> raises) as one.
\<close>

primrec weight :: "json \<Rightarrow> nat" where
  "weight JNull = 1"
| "weight (JBool b) = 1"
| "weight (JInt i) = 1"
| "weight (JStr s) = Suc (length s)"
| "weight (JList xs) = Suc (sum_list (map weight xs))"
| "weight (JDict kv) = Suc (sum_list (map (\<lambda>p. Suc (snd p)) (map (map_prod id weight) kv)))"

fun cost :: "json \<Rightarrow> nat" where
  "cost (JDict kv) = weight (JDict kv)"
| "cost _ = 1"

lemma weight_pos: "0 < weight x"
  by (cases x) simp_all

lemma cost_pos: "0 < cost x"
  by (cases x) simp_all

lemma cost_le_weight: "cost x \<le> weight x"
  using weight_pos [of x] by (cases x) simp_all

lemma sum_cost_le_weight: "sum_list (map cost xs) \<le> sum_list (map weight xs)"
  by (induction xs) (simp_all add: add_mono cost_le_weight)

lemma concat_utf8_chars: "concat (utf8_chars s) = s"
  by (induction s rule: utf8_chars.induct) simp_all

lemma length_utf8_chars: "length (utf8_chars s) \<le> length s"
proof (induction s rule: utf8_chars.induct)
  case 1
  then show ?case by simp
next
  case (2 c cs)
  have "length (dropWhile is_cont cs) \<le> length cs" by (rule length_dropWhile_le)
  with 2 show ?case by simp
qed

lemma cost_strs: "sum_list (map cost (map JStr ss)) = length ss"
  by (induction ss) simp_all

lemma cost_keys: "sum_list (map cost (map (\<lambda>p. JStr (fst p)) kv)) = length kv"
  by (induction kv) simp_all

lemma length_less_weight_dict: "length kv < weight (JDict kv)"
  by (induction kv) auto

lemma weight_map_of: "map_of kv k = Some v \<Longrightarrow> weight v < weight (JDict kv)"
  by (induction kv) (auto split: if_splits)

lemma cost_iter: "py_iter c = Inr cs \<Longrightarrow> sum_list (map cost cs) < weight c"
proof (cases c)
  case (JStr s)
  assume "py_iter c = Inr cs"
  with JStr have cs: "cs = map JStr (utf8_chars s)" by simp
  have "sum_list (map cost cs) = length (utf8_chars s)" unfolding cs by (rule cost_strs)
  with length_utf8_chars [of s] JStr show ?thesis by simp
next
  case (JList xs)
  assume "py_iter c = Inr cs"
  with JList sum_cost_le_weight [of xs] show ?thesis by auto
next
  case (JDict kv)
  assume "py_iter c = Inr cs"
  with JDict have cs: "cs = map (\<lambda>p. JStr (fst p)) kv" by simp
  have "sum_list (map cost cs) = length kv" unfolding cs by (rule cost_keys)
  with length_less_weight_dict [of kv] JDict show ?thesis by simp
qed auto

lemma cost_childs:
  assumes "dict_get node k JNull = Inr c" and "py_truthy (py_or c (JList []))"
    and "py_iter (py_or c (JList [])) = Inr cs"
  shows "sum_list (map cost cs) < cost node"
proof -
  from assms(2) have t: "py_truthy c" by (auto simp: py_or_def split: if_splits)
  then have c: "py_or c (JList []) = c" by (simp add: py_or_def)
  from assms(1) t obtain kv where kv: "node = JDict kv" "map_of kv k = Some c"
    by (cases node) (auto split: option.splits)
  from assms(3) c have "sum_list (map cost cs) < weight c" by (simp add: cost_iter)
  also from kv(2) have "\<dots> < weight (JDict kv)" by (rule weight_map_of)
  finally show ?thesis unfolding kv(1) cost.simps .
qed

lemma sum_butlast_last:
  "xs \<noteq> [] \<Longrightarrow> sum_list (map f (butlast xs)) + f (last xs) = (sum_list (map f xs) :: nat)"
  by (induction xs) auto

text \<open>
  \<open>iter_leaves\<close> (lines 91 to 102). \<open>iter_loop\<close> is its \<^verbatim>\<open>while\<close> loop on the stack and the
  output list; the top of the stack is the last element, as for \<^verbatim>\<open>list.pop\<close> and
  \<^verbatim>\<open>list.extend\<close>.
\<close>

function iter_loop :: "json list \<Rightarrow> json list \<Rightarrow> exn + json list" where
  "iter_loop stack out =
     (if stack = [] then Inr out
      else
        let node = last stack; stack' = butlast stack in
        case dict_get node ''childs'' JNull of
          Inl e \<Rightarrow> Inl e
        | Inr c \<Rightarrow>
            let childs = py_or c (JList []) in
            if py_truthy childs then
              (case py_iter childs of
                 Inl e \<Rightarrow> Inl e
               | Inr cs \<Rightarrow> iter_loop (stack' @ cs) out)
            else iter_loop stack' (out @ [node]))"
  by pat_completeness auto
termination
proof (relation "measure (\<lambda>(stack, out). sum_list (map cost stack))", goal_cases)
  case 1
  then show ?case by simp
next
  case (2 stack out node stack' c childs cs)
  from 2(1) have split: "sum_list (map cost stack') + cost node = sum_list (map cost stack)"
    unfolding 2(2) 2(3) by (rule sum_butlast_last)
  from 2(4) 2(6) 2(7) have "sum_list (map cost cs) < cost node"
    unfolding 2(5) by (rule cost_childs)
  with split show ?case by simp
next
  case (3 stack out node stack' c childs)
  from 3(1) have split: "sum_list (map cost stack') + cost node = sum_list (map cost stack)"
    unfolding 3(2) 3(3) by (rule sum_butlast_last)
  with cost_pos [of node] show ?case by simp
qed

declare iter_loop.simps [simp del]

definition iter_leaves :: "json list \<Rightarrow> exn + json list" where
  "iter_leaves tree = iter_loop tree []"

text \<open>
  \<open>select_leaves\<close> (lines 167 to 174); \<open>select_loop\<close> is its \<^verbatim>\<open>for\<close> loop over the leaves with
  the output list.
\<close>

fun select_loop :: "builtins \<Rightarrow> json list \<Rightarrow> json list \<Rightarrow> exn + json list" where
  "select_loop py [] out = Inr out"
| "select_loop py (node # rest) out =
     (case dict_get node ''url'' (JStr []) of
        Inl e \<Rightarrow> Inl e
      | Inr u \<Rightarrow>
          let url = py_str py u in
          if prefix ''/catalog'' url then
            (case dict_get node ''searchQuery'' JNull of
               Inl e \<Rightarrow> Inl e
             | Inr q \<Rightarrow>
                 if py_truthy q then select_loop py rest (out @ [node])
                 else select_loop py rest out)
          else select_loop py rest out)"

definition select_leaves :: "builtins \<Rightarrow> json list \<Rightarrow> exn + json list" where
  "select_leaves py menu =
     (case iter_leaves menu of
        Inl e \<Rightarrow> Inl e
      | Inr leaves \<Rightarrow> select_loop py leaves [])"

section \<open>Fetching the subjects of one leaf\<close>

text \<open>\<^verbatim>\<open>d[k] = v\<close> on a dict: the entry of \<open>k\<close> is replaced in place, a new key goes last.\<close>

fun dict_set :: "('k \<times> 'v) list \<Rightarrow> 'k \<Rightarrow> 'v \<Rightarrow> ('k \<times> 'v) list" where
  "dict_set [] k v = [(k, v)]"
| "dict_set (p # ps) k v = (if fst p = k then (k, v) # ps else p # dict_set ps k v)"

definition BASE_HOST :: string where
  "BASE_HOST = ''https://search.wb.ru''"

definition BASE_PATH :: string where
  "BASE_PATH = ''/exactmatch/ru/common/v18/search''"

definition EXPAND_PARAMS :: "(string \<times> json) list" where
  "EXPAND_PARAMS =
     [(''appType'', JStr ''1''),
      (''curr'', JStr ''rub''),
      (''dest'', JStr ''-1257786''),
      (''hide_dtype'', JStr ''13''),
      (''lang'', JStr ''ru''),
      (''filters'', JStr ''ffsubject''),
      (''resultset'', JStr ''filters''),
      (''spp'', JStr ''30'')]"

text \<open>
  \<^verbatim>\<open>urllib.parse.quote\<close> as \<^verbatim>\<open>urlencode\<close> calls it (\<^verbatim>\<open>safe=''\<close>): the bytes of the UTF-8
  text that are ASCII letters, digits or one of \<^verbatim>\<open>_.-~\<close> stay, every other byte becomes
  \<^verbatim>\<open>%XX\<close> in upper-case hexadecimal. \<^verbatim>\<open>urlencode(params, quote_via=quote)\<close> quotes each
  key and \<^verbatim>\<open>str(value)\<close> and joins the \<^verbatim>\<open>key=value\<close> pairs with \<^verbatim>\<open>&\<close>.
\<close>

definition always_safe :: "char \<Rightarrow> bool" where
  "always_safe c \<longleftrightarrow>
     c \<in> set ''ABCDEFGHIJKLMNOPQRSTUVWXYZabcdefghijklmnopqrstuvwxyz0123456789_.-~''"

definition hex_digit :: "nat \<Rightarrow> char" where
  "hex_digit n = ''0123456789ABCDEF'' ! n"

definition quote_byte :: "char \<Rightarrow> string" where
  "quote_byte c =
     (if always_safe c then [c]
      else [CHR ''%'', hex_digit (of_char c div 16), hex_digit (of_char c mod 16)])"

definition quote :: "string \<Rightarrow> string" where
  "quote s = concat (map quote_byte s)"

fun join :: "string \<Rightarrow> string list \<Rightarrow> string" where
  "join sep [] = []"
| "join sep [x] = x"
| "join sep (x # y # ys) = x @ sep @ join sep (y # ys)"

definition urlencode :: "builtins \<Rightarrow> (string \<times> json) list \<Rightarrow> string" where
  "urlencode py params =
     join ''&'' (map (\<lambda>(k, v). quote k @ ''='' @ quote (py_str py v)) params)"

definition build_filters_url :: "builtins \<Rightarrow> json \<Rightarrow> string" where
  "build_filters_url py query =
     (let params = dict_set EXPAND_PARAMS ''query'' query
      in BASE_HOST @ BASE_PATH @ ''?'' @ urlencode py params)"

text \<open>
  \<open>get_leaf_info\<close> (lines 105 to 112): \<^verbatim>\<open>node["id"]\<close> and \<^verbatim>\<open>node["searchQuery"]\<close> are
  subscripts and raise on a missing key, \<^verbatim>\<open>name\<close> and \<^verbatim>\<open>url\<close> are read with \<^verbatim>\<open>.get\<close>.
\<close>

definition get_leaf_info :: "builtins \<Rightarrow> json \<Rightarrow> exn + (int \<times> string \<times> string \<times> json)" where
  "get_leaf_info py node =
     (case subscript node ''id'' of
        Inl e \<Rightarrow> Inl e
      | Inr i \<Rightarrow>
     (case py_int py i of
        Inl e \<Rightarrow> Inl e
      | Inr leaf_id \<Rightarrow>
     (case dict_get node ''name'' (JStr []) of
        Inl e \<Rightarrow> Inl e
      | Inr n \<Rightarrow>
     (case dict_get node ''url'' (JStr []) of
        Inl e \<Rightarrow> Inl e
      | Inr u \<Rightarrow>
          let leaf_name = py_strip (py_str py n);
              leaf_url = py_strip (py_str py u);
              leaf_full_url =
                (if prefix ''/'' leaf_url then ''https://www.wildberries.ru'' @ leaf_url
                 else leaf_url)
          in (case subscript node ''searchQuery'' of
                Inl e \<Rightarrow> Inl e
              | Inr q \<Rightarrow> Inr (leaf_id, leaf_name, leaf_full_url, q))))))"

text \<open>
  \<open>extract_subjects\<close> (lines 122 to 127). \<open>subject_items\<close> is the list comprehension over
  the items of the facet, \<open>extract_loop\<close> the \<^verbatim>\<open>for\<close> loop over the filters, which returns
  at the first filter whose key is \<open>xsubject\<close>.
\<close>

fun subject_items :: "json list \<Rightarrow> exn + json list" where
  "subject_items [] = Inr []"
| "subject_items (it # its) =
     (case subscript it ''id'' of
        Inl e \<Rightarrow> Inl e
      | Inr i \<Rightarrow>
     (case subscript it ''name'' of
        Inl e \<Rightarrow> Inl e
      | Inr n \<Rightarrow>
     (case subject_items its of
        Inl e \<Rightarrow> Inl e
      | Inr rest \<Rightarrow> Inr (JDict [(''id'', i), (''name'', n)] # rest))))"

fun extract_loop :: "json list \<Rightarrow> exn + json list" where
  "extract_loop [] = Inr []"
| "extract_loop (f # fs) =
     (case dict_get f ''key'' JNull of
        Inl e \<Rightarrow> Inl e
      | Inr k \<Rightarrow>
          if k = JStr ''xsubject'' then
            (case dict_get f ''items'' (JList []) of
               Inl e \<Rightarrow> Inl e
             | Inr its \<Rightarrow>
            (case py_iter its of
               Inl e \<Rightarrow> Inl e
             | Inr items \<Rightarrow> subject_items items))
          else extract_loop fs)"

definition extract_subjects :: "json \<Rightarrow> exn + json list" where
  "extract_subjects payload =
     (case subscript payload ''data'' of
        Inl e \<Rightarrow> Inl e
      | Inr d \<Rightarrow>
     (case subscript d ''filters'' of
        Inl e \<Rightarrow> Inl e
      | Inr fl \<Rightarrow>
     (case py_iter fl of
        Inl e \<Rightarrow> Inl e
      | Inr fs \<Rightarrow> extract_loop fs)))"

text \<open>
  The HTTP client is the injected capability \<^verbatim>\<open>ctx.request.get\<close>: given the URL and the
  referer it raises or returns a response, whose \<^verbatim>\<open>json()\<close> and \<^verbatim>\<open>text()\<close> each raise or
  return. \<open>fetch_json\<close> (lines 130 to 145) returns \<^verbatim>\<open>resp.json()\<close>, and on any exception of
  it reads \<^verbatim>\<open>resp.text()\<close>, applies \<^verbatim>\<open>lstrip\<close> with the characters byte-order mark (U+FEFF),
  blank, tab, carriage return and line feed, and parses the result with \<^verbatim>\<open>json.loads\<close>.
\<close>

record api_response =
  resp_json :: "exn + json"
  resp_text :: "exn + string"

type_synonym client = "string \<Rightarrow> string \<Rightarrow> exn + api_response"

definition BOM_WS :: string where
  "BOM_WS = [CHR 0xEF, CHR 0xBB, CHR 0xBF, CHR 0x20, CHR 0x09, CHR 0x0D, CHR 0x0A]"

definition fetch_json :: "builtins \<Rightarrow> client \<Rightarrow> string \<Rightarrow> string \<Rightarrow> exn + json" where
  "fetch_json py ctx url referer =
     (case ctx url referer of
        Inl e \<Rightarrow> Inl e
      | Inr resp \<Rightarrow>
          (case resp_json resp of
             Inr data \<Rightarrow> Inr data
           | Inl e \<Rightarrow>
               (case resp_text resp of
                  Inl e' \<Rightarrow> Inl e'
                | Inr txt \<Rightarrow> json_loads py (py_lstrip BOM_WS txt))))"

text \<open>
  \<open>fetch_subjects_for_leaf\<close> (lines 148 to 164). \<open>try_block\<close> is the body of its
  \<^verbatim>\<open>try\<close> statement (lines 159 to 161); \<open>get_leaf_info\<close> is called before the \<^verbatim>\<open>try\<close>.
\<close>

definition try_block :: "builtins \<Rightarrow> client \<Rightarrow> string \<Rightarrow> json \<Rightarrow> exn + json list" where
  "try_block py ctx leaf_full_url q =
     (let url = build_filters_url py q
      in case fetch_json py ctx url leaf_full_url of
           Inl e \<Rightarrow> Inl e
         | Inr data \<Rightarrow> extract_subjects data)"

definition fetch_subjects_for_leaf :: "builtins \<Rightarrow> client \<Rightarrow> json \<Rightarrow> exn + json" where
  "fetch_subjects_for_leaf py ctx node =
     (case get_leaf_info py node of
        Inl e \<Rightarrow> Inl e
      | Inr (leaf_id, leaf_name, leaf_full_url, q) \<Rightarrow>
          let leaf_record =
                [(''leaf_id'', JInt leaf_id),
                 (''leaf_name'', JStr leaf_name),
                 (''leaf_full_url'', JStr leaf_full_url),
                 (''subjects'', JList []),
                 (''error'', JNull)]
          in (case try_block py ctx leaf_full_url q of
                Inr subjects \<Rightarrow> Inr (JDict (dict_set leaf_record ''subjects'' (JList subjects)))
              | Inl e \<Rightarrow> Inr (JDict (dict_set leaf_record ''error'' (JStr (exn_str py e))))))"

section \<open>The crawl orchestrator and its statistics\<close>





text \<open>
  \<open>leaves_stats\<close> (lines 208 to 213) on the parsed content of \<^verbatim>\<open>leaf_subjects.json\<close>;
  \<open>count_ok\<close> is \<^verbatim>\<open>sum(1 for r in data if not r.get("error"))\<close>.
\<close>

fun count_ok :: "json list \<Rightarrow> exn + int" where
  "count_ok [] = Inr 0"
| "count_ok (r # rs) =
     (case dict_get r ''error'' JNull of
        Inl e \<Rightarrow> Inl e
      | Inr err \<Rightarrow>
     (case count_ok rs of
        Inl e \<Rightarrow> Inl e
      | Inr n \<Rightarrow> Inr ((if \<not> py_truthy err then 1 else 0) + n)))"

definition leaves_stats :: "json list \<Rightarrow> exn + (int \<times> int)" where
  "leaves_stats data =
     (let total = int (length data)
      in case count_ok data of
           Inl e \<Rightarrow> Inl e
         | Inr ok \<Rightarrow> Inr (total, ok))"

section \<open>Rows of the export\<close>

text \<open>
  \<open>subjects_map\<close> (lines 237 to 243): the dict from leaf id to the subjects value, built
  by the loop \<open>subjects_loop\<close>. The right-hand side of the assignment is evaluated before
  the key.
\<close>

fun subjects_loop :: "builtins \<Rightarrow> json list \<Rightarrow> (int \<rightharpoonup> json) \<Rightarrow> exn + (int \<rightharpoonup> json)" where
  "subjects_loop py [] res = Inr res"
| "subjects_loop py (r # rs) res =
     (case dict_get r ''error'' JNull of
        Inl e \<Rightarrow> Inl e
      | Inr err \<Rightarrow>
          if \<not> py_truthy err then
            (case dict_get r ''subjects'' (JList []) of
               Inl e \<Rightarrow> Inl e
             | Inr s \<Rightarrow>
            (case subscript r ''leaf_id'' of
               Inl e \<Rightarrow> Inl e
             | Inr i \<Rightarrow>
            (case py_int py i of
               Inl e \<Rightarrow> Inl e
             | Inr k \<Rightarrow> subjects_loop py rs (res(k \<mapsto> py_or s (JList []))))))
          else subjects_loop py rs res)"

definition subjects_map :: "builtins \<Rightarrow> json list \<Rightarrow> exn + (int \<rightharpoonup> json)" where
  "subjects_map py items = subjects_loop py items Map.empty"

text \<open>
  \<open>build_rows\<close> (lines 252 to 266). A path is the list of \<open>(id, name, level)\<close> triples from
  the root to a leaf; \<^verbatim>\<open>path[-1]\<close> raises \<^verbatim>\<open>IndexError\<close> on an empty path. \<open>subject_rows\<close>
  is the inner loop over the subjects of the leaf, \<open>build_loop\<close> the loop over the paths
  with the rows emitted so far.
\<close>

type_synonym row = "int \<times> string \<times> int"

fun subject_rows :: "builtins \<Rightarrow> json list \<Rightarrow> row list \<Rightarrow> exn + row list" where
  "subject_rows py [] rows = Inr rows"
| "subject_rows py (s # ss) rows =
     (case subscript s ''id'' of
        Inl e \<Rightarrow> Inl e
      | Inr i \<Rightarrow>
     (case py_int py i of
        Inl e \<Rightarrow> Inl e
      | Inr k \<Rightarrow>
     (case subscript s ''name'' of
        Inl e \<Rightarrow> Inl e
      | Inr n \<Rightarrow> subject_rows py ss (rows @ [(k, py_str py n, 99)]))))"

fun build_loop :: "builtins \<Rightarrow> row list list \<Rightarrow> (int \<rightharpoonup> json) \<Rightarrow> row list \<Rightarrow> exn + row list" where
  "build_loop py [] subj_by_leaf rows = Inr rows"
| "build_loop py (path # paths) subj_by_leaf rows =
     (if path = [] then Inl IndexError
      else
        let parents = butlast (tl path);
            (leaf_id, leaf_name, leaf_level) = last path;
            rows1 = rows @ filter (\<lambda>(pid, pname, plevel). plevel > 0) parents;
            rows2 = (if leaf_level > 0 then rows1 @ [(leaf_id, leaf_name, leaf_level)] else rows1)
        in case py_iter (case subj_by_leaf leaf_id of Some v \<Rightarrow> v | None \<Rightarrow> JList []) of
             Inl e \<Rightarrow> Inl e
           | Inr ss \<Rightarrow>
          (case subject_rows py ss rows2 of
             Inl e \<Rightarrow> Inl e
           | Inr rows3 \<Rightarrow> build_loop py paths subj_by_leaf rows3))"

definition build_rows :: "builtins \<Rightarrow> row list list \<Rightarrow> (int \<rightharpoonup> json) \<Rightarrow> exn + row list" where
  "build_rows py paths subj_by_leaf = build_loop py paths subj_by_leaf []"

section \<open>Notions used to state the properties\<close>

text \<open>
  A well-formed forest consists of nodes \<open>wf_node\<close>: dicts whose \<open>childs\<close> is absent, or has
  the truth value false, or is a list of well-formed nodes. \<open>nodes_of\<close> lists a node and
  its descendants, parents first and children from left to right. A node \<open>has_no_childs\<close>
  when it is a dict whose \<open>childs\<close> is absent or empty, and is \<open>eligible\<close> when it is a dict
  whose \<open>url\<close> begins with \<open>/catalog\<close> and whose \<open>searchQuery\<close> is present and not empty.
\<close>

lemma weight_member: "x \<in> set xs \<Longrightarrow> weight x \<le> sum_list (map weight xs)"
  by (induction xs) auto

function wf_node :: "json \<Rightarrow> bool" where
  "wf_node (JDict kv) =
     (case map_of kv ''childs'' of
        None \<Rightarrow> True
      | Some (JList cs) \<Rightarrow> list_all wf_node cs
      | Some c \<Rightarrow> \<not> py_truthy c)"
| "wf_node JNull = False"
| "wf_node (JBool b) = False"
| "wf_node (JInt i) = False"
| "wf_node (JStr s) = False"
| "wf_node (JList xs) = False"
  by pat_completeness auto
termination
proof (relation "measure weight", goal_cases)
  case 1
  then show ?case by simp
next
  case (2 kv c cs x)
  from 2(1) have "weight (JList cs) < weight (JDict kv)" unfolding 2(2) by (rule weight_map_of)
  with weight_member [OF 2(3)] show ?case by simp
qed

function nodes_of :: "json \<Rightarrow> json list" where
  "nodes_of (JDict kv) =
     JDict kv # (case map_of kv ''childs'' of
                   Some (JList cs) \<Rightarrow> concat (map nodes_of cs)
                 | _ \<Rightarrow> [])"
| "nodes_of JNull = [JNull]"
| "nodes_of (JBool b) = [JBool b]"
| "nodes_of (JInt i) = [JInt i]"
| "nodes_of (JStr s) = [JStr s]"
| "nodes_of (JList xs) = [JList xs]"
  by pat_completeness auto
termination
proof (relation "measure weight", goal_cases)
  case 1
  then show ?case by simp
next
  case (2 kv c cs x)
  from 2(1) have "weight (JList cs) < weight (JDict kv)" unfolding 2(2) by (rule weight_map_of)
  with weight_member [OF 2(3)] show ?case by simp
qed

definition has_no_childs :: "json \<Rightarrow> bool" where
  "has_no_childs n =
     (case n of
        JDict kv \<Rightarrow> (case map_of kv ''childs'' of None \<Rightarrow> True | Some c \<Rightarrow> \<not> py_truthy c)
      | _ \<Rightarrow> False)"

definition eligible :: "builtins \<Rightarrow> json \<Rightarrow> bool" where
  "eligible py n =
     (case n of
        JDict kv \<Rightarrow>
          (case map_of kv ''url'' of None \<Rightarrow> False | Some u \<Rightarrow> prefix ''/catalog'' (py_str py u)) \<and>
          (case map_of kv ''searchQuery'' of None \<Rightarrow> False | Some q \<Rightarrow> py_truthy q)
      | _ \<Rightarrow> False)"

definition is_dict :: "json \<Rightarrow> bool" where
  "is_dict x = (case x of JDict kv \<Rightarrow> True | _ \<Rightarrow> False)"

text \<open>
  A filter is the subject facet when it is a dict whose \<open>key\<close> is \<open>xsubject\<close>; \<open>subject_of it s\<close>
  says that \<open>s\<close> is the \<open>{id, name}\<close> pair of the item \<open>it\<close>.
\<close>

definition is_xsubject :: "json \<Rightarrow> bool" where
  "is_xsubject f = (case f of JDict kv \<Rightarrow> map_of kv ''key'' = Some (JStr ''xsubject'') | _ \<Rightarrow> False)"

definition subject_of :: "json \<Rightarrow> json \<Rightarrow> bool" where
  "subject_of it s =
     (\<exists>i n. subscript it ''id'' = Inr i \<and> subscript it ''name'' = Inr n \<and>
            s = JDict [(''id'', i), (''name'', n)])"


definition WS :: string where
  "WS = [CHR 0x20, CHR 0x09, CHR 0x0A, CHR 0x0D]"

definition rstrip_ws :: "string \<Rightarrow> string" where
  "rstrip_ws s = rev (dropWhile (\<lambda>c. c \<in> set WS) (rev s))"



text \<open>
  A leaf record, as \<open>fetch_subjects_for_leaf\<close> builds it and as it is read back from
  \<^verbatim>\<open>leaf_subjects.json\<close>: a dict with an int \<open>leaf_id\<close>, a list \<open>subjects\<close> and an \<open>error\<close> that
  is \<^verbatim>\<open>None\<close> or a str. \<open>error_of\<close>, \<open>subjects_of\<close> and \<open>leaf_id_of\<close> read its fields. The
  error of a record is falsy, \<open>falsy_error\<close>, when it is \<^verbatim>\<open>None\<close> or the empty str: these are
  the values for which \<^verbatim>\<open>not r.get("error")\<close> holds. \<open>map_entry\<close> is the entry a record
  contributes to the map from leaf id to subjects.
\<close>

definition is_leaf_record :: "json \<Rightarrow> bool" where
  "is_leaf_record r =
     (case r of
        JDict kv \<Rightarrow>
          (case map_of kv ''leaf_id'' of Some (JInt i) \<Rightarrow> True | _ \<Rightarrow> False) \<and>
          (case map_of kv ''subjects'' of Some (JList ss) \<Rightarrow> True | _ \<Rightarrow> False) \<and>
          (case map_of kv ''error'' of Some JNull \<Rightarrow> True | Some (JStr m) \<Rightarrow> True | _ \<Rightarrow> False)
      | _ \<Rightarrow> False)"

definition error_of :: "json \<Rightarrow> json" where
  "error_of r = (case dict_get r ''error'' JNull of Inr e \<Rightarrow> e | Inl _ \<Rightarrow> JNull)"

definition subjects_of :: "json \<Rightarrow> json" where
  "subjects_of r = (case dict_get r ''subjects'' JNull of Inr s \<Rightarrow> s | Inl _ \<Rightarrow> JNull)"

definition leaf_id_of :: "json \<Rightarrow> int" where
  "leaf_id_of r = (case dict_get r ''leaf_id'' JNull of Inr (JInt i) \<Rightarrow> i | _ \<Rightarrow> 0)"

definition falsy_error :: "json \<Rightarrow> bool" where
  "falsy_error r \<longleftrightarrow> error_of r = JNull \<or> error_of r = JStr []"

definition map_entry :: "json \<Rightarrow> int \<times> json" where
  "map_entry r = (leaf_id_of r, subjects_of r)"

text \<open>
  The rows of a path that come from the tree: the ancestors between the root and the leaf
  with a level above 0, then the leaf if its level is above 0. \<open>level_of\<close> is the level of a
  row, \<open>path_rows\<close> the rows \<open>build_rows\<close> emits for one path.
\<close>

definition tree_rows :: "row list \<Rightarrow> row list" where
  "tree_rows path =
     filter (\<lambda>(pid, pname, plevel). plevel > 0) (butlast (tl path)) @
     (case last path of (leaf_id, leaf_name, leaf_level) \<Rightarrow>
        if leaf_level > 0 then [(leaf_id, leaf_name, leaf_level)] else [])"

definition level_of :: "row \<Rightarrow> int" where
  "level_of r = snd (snd r)"

definition path_rows :: "builtins \<Rightarrow> (int \<rightharpoonup> json) \<Rightarrow> row list \<Rightarrow> exn + row list" where
  "path_rows py m path = build_loop py [path] m []"

text \<open>
  A subject as the specification types it, a dict with an int \<open>id\<close> and a str \<open>name\<close>, and
  the level-99 row of a subject. \<open>subject_list\<close> is the list of subjects of a record, and
  \<open>leaf_subject_rows items k\<close> the subject rows that the records \<open>items\<close> give the leaf \<open>k\<close>:
  those of its record without error, none when it has no such record.
\<close>

definition is_subject :: "json \<Rightarrow> bool" where
  "is_subject s =
     (case s of
        JDict kv \<Rightarrow>
          (case map_of kv ''id'' of Some (JInt i) \<Rightarrow> True | _ \<Rightarrow> False) \<and>
          (case map_of kv ''name'' of Some (JStr n) \<Rightarrow> True | _ \<Rightarrow> False)
      | _ \<Rightarrow> False)"

definition subject_row :: "json \<Rightarrow> row" where
  "subject_row s =
     ((case subscript s ''id'' of Inr (JInt i) \<Rightarrow> i | _ \<Rightarrow> 0),
      (case subscript s ''name'' of Inr (JStr n) \<Rightarrow> n | _ \<Rightarrow> []),
      99)"

definition subject_list :: "json \<Rightarrow> json list" where
  "subject_list r = (case subjects_of r of JList ss \<Rightarrow> ss | _ \<Rightarrow> [])"

definition leaf_subject_rows :: "json list \<Rightarrow> int \<Rightarrow> row list" where
  "leaf_subject_rows items k =
     (case find (\<lambda>r. leaf_id_of r = k \<and> error_of r = JNull) items of
        None \<Rightarrow> []
      | Some r \<Rightarrow> map subject_row (subject_list r))"


section \<open>An instance of the builtins for concrete runs\<close>

text \<open>
  The theorems below hold for every value of the builtins. To run the model on a concrete
  input one instance is fixed. Its parser accepts the empty object followed by white space,
  as \<^verbatim>\<open>json.loads\<close> does, and rejects every other text; its write always succeeds; its
  other fields are not reached by the inputs used below, except \<open>message_of\<close>, which gives
  every interpreter exception the message \<open>error\<close>. In \<open>strict_write_builtins\<close> the write
  raises \<^verbatim>\<open>UnicodeEncodeError\<close>: it stands for a run in which a subject name of a response
  holds an unpaired surrogate, which the strict UTF-8 encoder of \<^verbatim>\<open>write_text\<close> rejects.
\<close>

definition sample_builtins :: builtins where
  "sample_builtins =
     \<lparr>repr_of = (\<lambda>v. ''[]''),
      int_of_text = (\<lambda>s. None),
      json_loads = (\<lambda>s. if rstrip_ws s = ''{}'' then Inr (JDict [])
                         else Inl (Raised ''Expecting value'')),
      message_of = (\<lambda>e. ''error''),
      write_json = (\<lambda>results. None)\<rparr>"


text \<open>
  A leaf of the menu, a client whose request times out, and a client that answers with a
  search response holding two facets.
\<close>

definition shoes_leaf :: json where
  "shoes_leaf =
     JDict [(''id'', JInt 7), (''name'', JStr ''Shoes''), (''url'', JStr ''/catalog/shoes''),
            (''searchQuery'', JStr ''shoes'')]"

definition failing_client :: client where
  "failing_client url referer = Inl (Raised ''Timeout 8000ms exceeded'')"

definition facet_payload :: json where
  "facet_payload =
     JDict [(''data'', JDict [(''filters'',
        JList [JDict [(''key'', JStr ''fbrand''), (''items'', JList [])],
               JDict [(''key'', JStr ''xsubject''),
                      (''items'', JList [JDict [(''id'', JInt 9), (''name'', JStr ''Foo''),
                                               (''count'', JInt 3)]])]])])]"

definition facet_client :: client where
  "facet_client url referer =
     Inr \<lparr>resp_json = Inr facet_payload, resp_text = Inr []\<rparr>"

text \<open>
  A menu with one root that has two leaves, one of them without a search query, and a
  second root that is itself a leaf outside the catalog.
\<close>

definition promo_leaf :: json where
  "promo_leaf = JDict [(''id'', JInt 8), (''name'', JStr ''Promo''), (''url'', JStr ''/catalog/promo'')]"

definition travel_leaf :: json where
  "travel_leaf =
     JDict [(''id'', JInt 2), (''name'', JStr ''Travel''), (''url'', JStr ''/travel''),
            (''searchQuery'', JStr ''trips''), (''childs'', JList [])]"

definition sample_menu :: "json list" where
  "sample_menu =
     [JDict [(''id'', JInt 1), (''name'', JStr ''Wear''), (''url'', JStr ''/catalog/wear''),
             (''searchQuery'', JStr ''wear''), (''childs'', JList [shoes_leaf, promo_leaf])],
      travel_leaf]"

text \<open>
  A client that answers with a search response without the subject facet, a client whose
  request raises an exception with an empty message, and a client whose response cannot be
  read with \<^verbatim>\<open>json()\<close> and whose body is a byte-order mark, a blank, \<^verbatim>\<open>{}\<close> and a blank.
\<close>

definition brand_payload :: json where
  "brand_payload =
     JDict [(''data'', JDict [(''filters'',
        JList [JDict [(''key'', JStr ''fbrand''), (''items'', JList [])]])])]"

definition brand_client :: client where
  "brand_client url referer =
     Inr \<lparr>resp_json = Inr brand_payload, resp_text = Inr []\<rparr>"

definition silent_client :: client where
  "silent_client url referer = Inl (Raised [])"


text \<open>
  The record of a leaf whose fetch raised an exception with an empty message, the record
  of a leaf whose fetch timed out, the record of a leaf with one subject, and the record of
  a second leaf whose fetch timed out.
\<close>

definition blank_error_record :: json where
  "blank_error_record =
     JDict [(''leaf_id'', JInt 7), (''leaf_name'', JStr ''Shoes''),
            (''leaf_full_url'', JStr ''https://www.wildberries.ru/catalog/shoes''),
            (''subjects'', JList []), (''error'', JStr [])]"


definition facet_record :: json where
  "facet_record =
     JDict [(''leaf_id'', JInt 7), (''leaf_name'', JStr ''Shoes''),
            (''leaf_full_url'', JStr ''https://www.wildberries.ru/catalog/shoes''),
            (''subjects'', JList [JDict [(''id'', JInt 9), (''name'', JStr ''Foo'')]]),
            (''error'', JNull)]"

definition promo_timeout_record :: json where
  "promo_timeout_record =
     JDict [(''leaf_id'', JInt 8), (''leaf_name'', JStr ''Promo''),
            (''leaf_full_url'', JStr ''https://www.wildberries.ru/catalog/promo''),
            (''subjects'', JList []), (''error'', JStr ''Timeout 8000ms exceeded'')]"

section \<open>Properties of the capture classifier\<close>

lemma is_substr_iff: "is_substr h u \<longleftrightarrow> (\<exists>a b. u = a @ h @ b)"
proof (induction u)
  case Nil
  then show ?case by auto
next
  case (Cons c cs)
  show ?case
  proof
    assume "is_substr h (c # cs)"
    then consider "prefix h (c # cs)" | "is_substr h cs" by auto
    then show "\<exists>a b. c # cs = a @ h @ b"
    proof cases
      case 1
      then obtain b where "c # cs = h @ b" by (auto simp: prefix_def)
      then have "c # cs = [] @ h @ b" by simp
      then show ?thesis by blast
    next
      case 2
      with Cons.IH obtain a b where "cs = a @ h @ b" by blast
      then have "c # cs = (c # a) @ h @ b" by simp
      then show ?thesis by blast
    qed
  next
    assume "\<exists>a b. c # cs = a @ h @ b"
    then obtain a b where ab: "c # cs = a @ h @ b" by blast
    show "is_substr h (c # cs)"
    proof (cases a)
      case Nil
      with ab have "prefix h (c # cs)" by (simp add: prefix_def)
      then show ?thesis by simp
    next
      case (Cons a0 as)
      with ab have "cs = as @ h @ b" by simp
      with Cons.IH have "is_substr h cs" by blast
      then show ?thesis by simp
    qed
  qed
qed

lemma map_of_defined_iff: "map_of kv k \<noteq> None \<longleftrightarrow> k \<in> fst ` set kv"
  by (simp add: map_of_eq_None_iff)

lemma map_of_Some_iff: "(\<exists>v. map_of kv k = Some v) \<longleftrightarrow> k \<in> fst ` set kv"
  using map_of_defined_iff [of kv k] by auto

text \<open>
  C7. The capture classifier, that is \<open>is_menu_url\<close> on the response's URL together with
  \<open>looks_like_menu_json\<close> on its parsed body, accepts exactly when the URL ends with
  \<open>.json\<close> and contains both \<open>main-menu\<close> and \<open>v3\<close>, and the body is a list one of
  whose first five elements is a dict with both an \<open>id\<close> and a \<open>name\<close> key. Every other
  URL or body is rejected.
\<close>

theorem capture_classifier_iff:
  "(is_menu_url url \<and> looks_like_menu_json body) \<longleftrightarrow>
     ((\<exists>a. url = a @ ''.json'') \<and>
      (\<exists>a b. url = a @ ''main-menu'' @ b) \<and>
      (\<exists>a b. url = a @ ''v3'' @ b) \<and>
      (\<exists>xs x kv. body = JList xs \<and> x \<in> set (take 5 xs) \<and> x = JDict kv \<and>
                 ''id'' \<in> fst ` set kv \<and> ''name'' \<in> fst ` set kv))"
proof -
  have url: "is_menu_url url \<longleftrightarrow>
      ((\<exists>a. url = a @ ''.json'') \<and> (\<exists>a b. url = a @ ''main-menu'' @ b) \<and>
       (\<exists>a b. url = a @ ''v3'' @ b))"
    by (simp add: is_menu_url_def MENU_HINTS_def is_substr_iff suffix_def)
  have body: "looks_like_menu_json body \<longleftrightarrow>
      (\<exists>xs x kv. body = JList xs \<and> x \<in> set (take 5 xs) \<and> x = JDict kv \<and>
                 ''id'' \<in> fst ` set kv \<and> ''name'' \<in> fst ` set kv)"
  proof (cases body)
    case (JList xs)
    have pointwise: "(case x of
              JDict kv \<Rightarrow> map_of kv ''id'' \<noteq> None \<and> map_of kv ''name'' \<noteq> None
            | _ \<Rightarrow> False) \<longleftrightarrow>
          (\<exists>kv. x = JDict kv \<and> ''id'' \<in> fst ` set kv \<and> ''name'' \<in> fst ` set kv)" for x
      by (cases x) (simp_all add: map_of_Some_iff)
    have "list_ex (\<lambda>x. case x of
                          JDict kv \<Rightarrow> map_of kv ''id'' \<noteq> None \<and> map_of kv ''name'' \<noteq> None
                        | _ \<Rightarrow> False) (take 5 xs) \<longleftrightarrow>
          (\<exists>x kv. x \<in> set (take 5 xs) \<and> x = JDict kv \<and>
                 ''id'' \<in> fst ` set kv \<and> ''name'' \<in> fst ` set kv)"
      unfolding list_ex_iff pointwise by blast
    with JList have "looks_like_menu_json body \<longleftrightarrow>
          (\<exists>x kv. x \<in> set (take 5 xs) \<and> x = JDict kv \<and>
                 ''id'' \<in> fst ` set kv \<and> ''name'' \<in> fst ` set kv)"
      by (simp only: looks_like_menu_json_def json.case)
    with JList show ?thesis by auto
  qed (simp_all add: looks_like_menu_json_def)
  from url body show ?thesis by simp
qed

theorem capture_classifier_iff_witness:
  "is_menu_url ''/v3/main-menu-ru.json'' \<and>
   looks_like_menu_json (JList [JInt 1, JDict [(''id'', JInt 7), (''name'', JStr ''Shoes'')]]) \<and>
   (\<exists>xs x kv. JList [JInt 1, JDict [(''id'', JInt 7), (''name'', JStr ''Shoes'')]] = JList xs \<and>
      x \<in> set (take 5 xs) \<and> x = JDict kv \<and> ''id'' \<in> fst ` set kv \<and> ''name'' \<in> fst ` set kv)"
proof -
  have a: "is_menu_url ''/v3/main-menu-ru.json''"
    by (simp add: is_menu_url_def MENU_HINTS_def suffix_def)
  have b: "looks_like_menu_json (JList [JInt 1, JDict [(''id'', JInt 7), (''name'', JStr ''Shoes'')]])"
    by (simp add: looks_like_menu_json_def)
  from a b capture_classifier_iff
    [of "''/v3/main-menu-ru.json''" "JList [JInt 1, JDict [(''id'', JInt 7), (''name'', JStr ''Shoes'')]]"]
  show ?thesis by blast
qed

section \<open>Properties of the tree flattening\<close>

lemma iter_loop_empty: "iter_loop [] out = Inr out"
  by (subst iter_loop.simps) simp

lemma iter_loop_leaf:
  assumes "map_of kv ''childs'' = None \<or> (\<exists>c. map_of kv ''childs'' = Some c \<and> \<not> py_truthy c)"
  shows "iter_loop (stack @ [JDict kv]) out = iter_loop stack (out @ [JDict kv])"
  using assms by (subst iter_loop.simps) (auto simp: py_or_def Let_def)

lemma iter_loop_inner:
  assumes "map_of kv ''childs'' = Some c" and "py_truthy c"
  shows "iter_loop (stack @ [JDict kv]) out =
           (case py_iter c of Inl e \<Rightarrow> Inl e | Inr cs \<Rightarrow> iter_loop (stack @ cs) out)"
  using assms by (subst iter_loop.simps) (simp add: py_or_def Let_def)

lemma iter_loop_not_dict:
  assumes "\<And>kv. node \<noteq> JDict kv"
  shows "iter_loop (stack @ [node]) out = Inl AttributeError"
proof -
  have "dict_get node ''childs'' JNull = Inl AttributeError"
    using assms by (cases node) auto
  then show ?thesis by (subst iter_loop.simps) (simp add: Let_def)
qed

lemma has_no_childs_dict:
  "has_no_childs (JDict kv) \<longleftrightarrow>
     (map_of kv ''childs'' = None \<or> (\<exists>c. map_of kv ''childs'' = Some c \<and> \<not> py_truthy c))"
  by (auto simp: has_no_childs_def split: option.splits)

lemma nodes_of_leaf: "has_no_childs (JDict kv) \<Longrightarrow> nodes_of (JDict kv) = [JDict kv]"
  by (auto simp: has_no_childs_def split: option.splits json.splits)

lemma iter_loop_wf:
  "list_all wf_node stack \<Longrightarrow>
   iter_loop stack out = Inr (out @ rev (filter has_no_childs (concat (map nodes_of stack))))"
proof (induction "sum_list (map cost stack)" arbitrary: stack out rule: less_induct)
  case less
  show ?case
  proof (cases stack rule: rev_cases)
    case Nil
    then show ?thesis by (simp add: iter_loop_empty)
  next
    case (snoc rest node)
    from less.prems snoc have wfr: "list_all wf_node rest" and wfn: "wf_node node" by simp_all
    from wfn obtain kv where kv: "node = JDict kv" by (cases node) simp_all
    show ?thesis
    proof (cases "has_no_childs node")
      case True
      have "sum_list (map cost rest) < sum_list (map cost stack)"
        using snoc cost_pos [of node] by simp
      from less.hyps [OF this wfr]
      have "iter_loop rest (out @ [node]) =
              Inr ((out @ [node]) @ rev (filter has_no_childs (concat (map nodes_of rest))))" .
      moreover have "iter_loop stack out = iter_loop rest (out @ [node])"
        using True unfolding snoc kv has_no_childs_dict by (rule iter_loop_leaf)
      moreover have "filter has_no_childs (nodes_of node) = [node]"
        using True nodes_of_leaf kv by simp
      ultimately show ?thesis using snoc by simp
    next
      case False
      with kv obtain c where c: "map_of kv ''childs'' = Some c" "py_truthy c"
        by (auto simp: has_no_childs_dict)
      with wfn kv obtain cs where cs: "c = JList cs" "list_all wf_node cs"
        by (cases c) auto
      have step: "iter_loop stack out = iter_loop (rest @ cs) out"
        unfolding snoc kv using iter_loop_inner [OF c, of rest out] cs by simp
      have "sum_list (map cost cs) \<le> sum_list (map weight cs)" by (rule sum_cost_le_weight)
      also have "\<dots> < weight c" using cs by simp
      also have "\<dots> < weight (JDict kv)" using c(1) by (rule weight_map_of)
      finally have "sum_list (map cost (rest @ cs)) < sum_list (map cost stack)"
        using snoc kv by simp
      moreover have "list_all wf_node (rest @ cs)" using wfr cs by simp
      ultimately have "iter_loop (rest @ cs) out =
          Inr (out @ rev (filter has_no_childs (concat (map nodes_of (rest @ cs)))))"
        by (rule less.hyps)
      moreover have "filter has_no_childs (nodes_of node) =
          filter has_no_childs (concat (map nodes_of cs))"
        using False kv c cs by simp
      ultimately show ?thesis using step snoc by simp
    qed
  qed
qed

lemma iter_loop_dicts:
  "iter_loop stack out = Inr r \<Longrightarrow> list_all is_dict out \<Longrightarrow> list_all is_dict r"
proof (induction "sum_list (map cost stack)" arbitrary: stack out rule: less_induct)
  case less
  show ?case
  proof (cases stack rule: rev_cases)
    case Nil
    with less.prems show ?thesis by (simp add: iter_loop_empty)
  next
    case (snoc rest node)
    show ?thesis
    proof (cases node)
      case (JDict kv)
      show ?thesis
      proof (cases "has_no_childs node")
        case True
        then have "iter_loop stack out = iter_loop rest (out @ [node])"
          unfolding snoc JDict has_no_childs_dict by (rule iter_loop_leaf)
        with less.prems(1) have "iter_loop rest (out @ [node]) = Inr r" by simp
        moreover have "sum_list (map cost rest) < sum_list (map cost stack)"
          using snoc cost_pos [of node] by simp
        moreover have "list_all is_dict (out @ [node])"
          using less.prems(2) JDict by (simp add: is_dict_def)
        ultimately show ?thesis using less.hyps by blast
      next
        case False
        with JDict obtain c where c: "map_of kv ''childs'' = Some c" "py_truthy c"
          by (auto simp: has_no_childs_dict)
        from less.prems(1) iter_loop_inner [OF c, of rest out]
        obtain cs where cs: "py_iter c = Inr cs" "iter_loop (rest @ cs) out = Inr r"
          unfolding snoc JDict by (cases "py_iter c") auto
        from cs(1) have "sum_list (map cost cs) < weight c" by (rule cost_iter)
        also have "\<dots> < weight (JDict kv)" using c(1) by (rule weight_map_of)
        finally have "sum_list (map cost (rest @ cs)) < sum_list (map cost stack)"
          using snoc JDict by simp
        from less.hyps [OF this cs(2) less.prems(2)] show ?thesis .
      qed
    qed (use less.prems(1) snoc iter_loop_not_dict [of node rest out] in auto)
  qed
qed

lemma select_loop_step:
  "select_loop py (JDict kv # rest) out =
     select_loop py rest (if eligible py (JDict kv) then out @ [JDict kv] else out)"
  by (auto simp: eligible_def Let_def split: option.splits)

lemma select_loop_dicts:
  "list_all is_dict ls \<Longrightarrow> select_loop py ls out = Inr (out @ filter (eligible py) ls)"
proof (induction ls arbitrary: out)
  case Nil
  then show ?case by simp
next
  case (Cons n ls)
  then obtain kv where kv: "n = JDict kv" by (cases n) (simp_all add: is_dict_def)
  from Cons have IH: "\<And>out. select_loop py ls out = Inr (out @ filter (eligible py) ls)" by simp
  show ?case
    unfolding kv select_loop_step by (simp add: IH)
qed

lemma select_leaves_filter:
  "select_leaves py menu =
     (case iter_leaves menu of Inl e \<Rightarrow> Inl e | Inr leaves \<Rightarrow> Inr (filter (eligible py) leaves))"
proof (cases "iter_leaves menu")
  case (Inl e)
  then show ?thesis by (simp add: select_leaves_def)
next
  case (Inr leaves)
  then have "list_all is_dict leaves"
    unfolding iter_leaves_def using iter_loop_dicts [of menu "[]" leaves] by simp
  with Inr show ?thesis by (simp add: select_leaves_def select_loop_dicts)
qed


lemma iter_leaves_wf:
  "list_all wf_node menu \<Longrightarrow>
   iter_leaves menu = Inr (rev (filter has_no_childs (concat (map nodes_of menu))))"
  using iter_loop_wf [of menu "[]"] by (simp add: iter_leaves_def)

text \<open>
  C4. \<open>select_leaves\<close> returns the nodes emitted by \<open>iter_leaves\<close> that are eligible: those
  whose \<open>url\<close> begins with \<open>/catalog\<close> and whose \<open>searchQuery\<close> is present and not empty; it
  raises what \<open>iter_leaves\<close> raises. On a forest of dicts whose \<open>childs\<close>, where present and
  not empty, is a list of such dicts, \<open>iter_leaves\<close> emits exactly the nodes of the forest
  whose \<open>childs\<close> is absent or empty, so inner nodes are never selected.
\<close>

theorem select_leaves_spec:
  "select_leaves py menu =
     (case iter_leaves menu of Inl e \<Rightarrow> Inl e | Inr leaves \<Rightarrow> Inr (filter (eligible py) leaves)) \<and>
   (list_all wf_node menu \<longrightarrow>
      iter_leaves menu = Inr (rev (filter has_no_childs (concat (map nodes_of menu)))))"
proof
  show "select_leaves py menu =
     (case iter_leaves menu of Inl e \<Rightarrow> Inl e | Inr leaves \<Rightarrow> Inr (filter (eligible py) leaves))"
    by (rule select_leaves_filter)
  show "list_all wf_node menu \<longrightarrow>
      iter_leaves menu = Inr (rev (filter has_no_childs (concat (map nodes_of menu))))"
    by (simp add: iter_leaves_wf)
qed

theorem select_leaves_spec_witness:
  "list_all wf_node sample_menu \<and>
   iter_leaves sample_menu = Inr [travel_leaf, promo_leaf, shoes_leaf] \<and>
   select_leaves sample_builtins sample_menu = Inr [shoes_leaf]"
proof -
  have wf: "list_all wf_node sample_menu"
    by (simp add: sample_menu_def shoes_leaf_def promo_leaf_def travel_leaf_def)
  have nodes: "rev (filter has_no_childs (concat (map nodes_of sample_menu))) =
      [travel_leaf, promo_leaf, shoes_leaf]"
    by (simp add: sample_menu_def shoes_leaf_def promo_leaf_def travel_leaf_def has_no_childs_def)
  have el: "filter (eligible sample_builtins) [travel_leaf, promo_leaf, shoes_leaf] = [shoes_leaf]"
    by (simp add: shoes_leaf_def promo_leaf_def travel_leaf_def eligible_def)
  from select_leaves_spec [of sample_builtins sample_menu] wf nodes el
  show ?thesis by simp
qed

section \<open>Properties of the leaf fetcher\<close>

lemma fetch_subjects_raise:
  "get_leaf_info py node = Inl e \<Longrightarrow> fetch_subjects_for_leaf py ctx node = Inl e"
  by (simp add: fetch_subjects_for_leaf_def)

lemma fetch_subjects_ok:
  assumes "get_leaf_info py node = Inr (leaf_id, leaf_name, leaf_full_url, q)"
    and "try_block py ctx leaf_full_url q = Inr subjects"
  shows "fetch_subjects_for_leaf py ctx node =
           Inr (JDict [(''leaf_id'', JInt leaf_id), (''leaf_name'', JStr leaf_name),
                       (''leaf_full_url'', JStr leaf_full_url), (''subjects'', JList subjects),
                       (''error'', JNull)])"
  using assms by (simp add: fetch_subjects_for_leaf_def)

lemma fetch_subjects_failed:
  assumes "get_leaf_info py node = Inr (leaf_id, leaf_name, leaf_full_url, q)"
    and "try_block py ctx leaf_full_url q = Inl e"
  shows "fetch_subjects_for_leaf py ctx node =
           Inr (JDict [(''leaf_id'', JInt leaf_id), (''leaf_name'', JStr leaf_name),
                       (''leaf_full_url'', JStr leaf_full_url), (''subjects'', JList []),
                       (''error'', JStr (exn_str py e))])"
  using assms by (simp add: fetch_subjects_for_leaf_def)

lemma try_block_cases:
  "try_block py ctx u q =
     (case fetch_json py ctx (build_filters_url py q) u of
        Inl e \<Rightarrow> Inl e
      | Inr data \<Rightarrow> extract_subjects data)"
  by (simp add: try_block_def Let_def)

text \<open>
  C1. Once the leaf's id, name, URL and search query have been read, an exception raised
  in the \<^verbatim>\<open>try\<close> block, that is while the URL is built, by the HTTP fetch (the request,
  reading the body, parsing it) or by the extraction of the subjects, is caught in
  \<open>fetch_subjects_for_leaf\<close>: the function returns the record with \<open>error\<close> set to the message
  of the exception and \<open>subjects\<close> left empty. It returns a record whatever these steps do,
  so none of their exceptions reaches the caller.
\<close>

theorem fetch_failure_recorded:
  assumes "get_leaf_info py node = Inr (leaf_id, leaf_name, leaf_full_url, q)"
  shows "(\<forall>e. try_block py ctx leaf_full_url q = Inl e \<longrightarrow>
            fetch_subjects_for_leaf py ctx node =
              Inr (JDict [(''leaf_id'', JInt leaf_id), (''leaf_name'', JStr leaf_name),
                          (''leaf_full_url'', JStr leaf_full_url), (''subjects'', JList []),
                          (''error'', JStr (exn_str py e))])) \<and>
         (\<forall>e. fetch_json py ctx (build_filters_url py q) leaf_full_url = Inl e \<longrightarrow>
            try_block py ctx leaf_full_url q = Inl e) \<and>
         (\<forall>data e. fetch_json py ctx (build_filters_url py q) leaf_full_url = Inr data \<longrightarrow>
            extract_subjects data = Inl e \<longrightarrow>
            try_block py ctx leaf_full_url q = Inl e) \<and>
         (\<exists>r. fetch_subjects_for_leaf py ctx node = Inr r)"
proof (intro conjI allI impI)
  fix e
  assume "try_block py ctx leaf_full_url q = Inl e"
  with assms show "fetch_subjects_for_leaf py ctx node =
              Inr (JDict [(''leaf_id'', JInt leaf_id), (''leaf_name'', JStr leaf_name),
                          (''leaf_full_url'', JStr leaf_full_url), (''subjects'', JList []),
                          (''error'', JStr (exn_str py e))])"
    by (rule fetch_subjects_failed)
next
  fix e
  assume "fetch_json py ctx (build_filters_url py q) leaf_full_url = Inl e"
  then show "try_block py ctx leaf_full_url q = Inl e" by (simp add: try_block_cases)
next
  fix data e
  assume "fetch_json py ctx (build_filters_url py q) leaf_full_url = Inr data"
    and "extract_subjects data = Inl e"
  then show "try_block py ctx leaf_full_url q = Inl e" by (simp add: try_block_cases)
next
  show "\<exists>r. fetch_subjects_for_leaf py ctx node = Inr r"
  proof (cases "try_block py ctx leaf_full_url q")
    case (Inl e)
    with assms fetch_subjects_failed show ?thesis by blast
  next
    case (Inr subjects)
    with assms fetch_subjects_ok show ?thesis by blast
  qed
qed

lemma fetch_subjects_Inl_iff:
  "fetch_subjects_for_leaf py ctx node = Inl e \<longleftrightarrow> get_leaf_info py node = Inl e"
proof (cases "get_leaf_info py node")
  case (Inl e')
  then show ?thesis by (simp add: fetch_subjects_raise)
next
  case (Inr info)
  obtain i n u q where info: "info = (i, n, u, q)" by (cases info)
  from Inr info have g: "get_leaf_info py node = Inr (i, n, u, q)" by simp
  have "\<exists>r. fetch_subjects_for_leaf py ctx node = Inr r"
  proof (cases "try_block py ctx u q")
    case (Inl e)
    with g fetch_subjects_failed show ?thesis by blast
  next
    case (Inr subjects)
    with g fetch_subjects_ok show ?thesis by blast
  qed
  with g show ?thesis by auto
qed

text \<open>
  C10. \<open>fetch_subjects_for_leaf\<close> calls \<open>get_leaf_info\<close> before its \<^verbatim>\<open>try\<close> block: it raises
  exactly the exceptions \<open>get_leaf_info\<close> raises. For a node without the key \<open>id\<close> that is
  \<^verbatim>\<open>KeyError\<close>, for an \<open>id\<close> that \<^verbatim>\<open>int()\<close> rejects the exception of \<^verbatim>\<open>int()\<close>, for a node
  without the key \<open>searchQuery\<close> again \<^verbatim>\<open>KeyError\<close>; no record is returned. In every other
  case a record is returned, so the exceptions of the URL building, of the request and of
  the extraction are the ones contained.
\<close>

theorem leaf_info_outside_try:
  "(fetch_subjects_for_leaf py ctx node = Inl e \<longleftrightarrow> get_leaf_info py node = Inl e) \<and>
   (map_of kv ''id'' = None \<longrightarrow>
      fetch_subjects_for_leaf py ctx (JDict kv) = Inl (KeyError ''id'')) \<and>
   (\<forall>i e'. map_of kv ''id'' = Some i \<longrightarrow> py_int py i = Inl e' \<longrightarrow>
      fetch_subjects_for_leaf py ctx (JDict kv) = Inl e') \<and>
   (\<forall>i k. map_of kv ''id'' = Some i \<longrightarrow> py_int py i = Inr k \<longrightarrow>
      map_of kv ''searchQuery'' = None \<longrightarrow>
      fetch_subjects_for_leaf py ctx (JDict kv) = Inl (KeyError ''searchQuery''))"
proof (intro conjI allI impI)
  show "fetch_subjects_for_leaf py ctx node = Inl e \<longleftrightarrow> get_leaf_info py node = Inl e"
    by (rule fetch_subjects_Inl_iff)
next
  assume "map_of kv ''id'' = None"
  then have "get_leaf_info py (JDict kv) = Inl (KeyError ''id'')"
    by (simp add: get_leaf_info_def)
  then show "fetch_subjects_for_leaf py ctx (JDict kv) = Inl (KeyError ''id'')"
    by (rule fetch_subjects_raise)
next
  fix i e'
  assume "map_of kv ''id'' = Some i" and "py_int py i = Inl e'"
  then have "get_leaf_info py (JDict kv) = Inl e'"
    by (simp add: get_leaf_info_def)
  then show "fetch_subjects_for_leaf py ctx (JDict kv) = Inl e'"
    by (rule fetch_subjects_raise)
next
  fix i k
  assume "map_of kv ''id'' = Some i" and "py_int py i = Inr k"
    and "map_of kv ''searchQuery'' = None"
  then have "get_leaf_info py (JDict kv) = Inl (KeyError ''searchQuery'')"
    by (simp add: get_leaf_info_def Let_def)
  then show "fetch_subjects_for_leaf py ctx (JDict kv) = Inl (KeyError ''searchQuery'')"
    by (rule fetch_subjects_raise)
qed

lemma subject_items_Inr: "subject_items its = Inr r \<Longrightarrow> list_all2 subject_of its r"
proof (induction its arbitrary: r)
  case Nil
  then show ?case by simp
next
  case (Cons it its)
  from Cons.prems obtain i n rest where
    parts: "subscript it ''id'' = Inr i" "subscript it ''name'' = Inr n"
      "subject_items its = Inr rest" "r = JDict [(''id'', i), (''name'', n)] # rest"
    by (auto split: sum.splits)
  from parts(1,2) have "subject_of it (JDict [(''id'', i), (''name'', n)])"
    by (simp add: subject_of_def)
  with Cons.IH [OF parts(3)] parts(4) show ?case by simp
qed

lemma extract_loop_Inr:
  "extract_loop fs = Inr r \<Longrightarrow>
     (case find is_xsubject fs of
        None \<Rightarrow> r = []
      | Some f \<Rightarrow> \<exists>its items. dict_get f ''items'' (JList []) = Inr its \<and>
                   py_iter its = Inr items \<and> list_all2 subject_of items r)"
proof (induction fs)
  case Nil
  then show ?case by simp
next
  case (Cons f fs)
  from Cons.prems obtain kv where kv: "f = JDict kv" by (cases f) simp_all
  show ?case
  proof (cases "is_xsubject f")
    case True
    with kv have key: "map_of kv ''key'' = Some (JStr ''xsubject'')" by (simp add: is_xsubject_def)
    with Cons.prems kv obtain its items where
      "dict_get f ''items'' (JList []) = Inr its" "py_iter its = Inr items"
      "subject_items items = Inr r"
      by (auto split: sum.splits)
    with True subject_items_Inr show ?thesis by auto
  next
    case False
    with kv have "(case map_of kv ''key'' of None \<Rightarrow> JNull | Some v \<Rightarrow> v) \<noteq> JStr ''xsubject''"
      by (auto simp: is_xsubject_def split: option.splits)
    with Cons.prems kv have "extract_loop fs = Inr r" by simp
    with Cons.IH False show ?thesis by simp
  qed
qed

lemma subject_items_of: "list_all2 subject_of its r \<Longrightarrow> subject_items its = Inr r"
proof (induction its r rule: list_all2_induct)
  case Nil
  then show ?case by simp
next
  case (Cons it its s r)
  from Cons.hyps(1) obtain i n where "subscript it ''id'' = Inr i" "subscript it ''name'' = Inr n"
    "s = JDict [(''id'', i), (''name'', n)]"
    by (auto simp: subject_of_def)
  with Cons.IH show ?case by simp
qed

lemma extract_loop_skip:
  assumes "is_dict f" and "\<not> is_xsubject f"
  shows "extract_loop (f # fs) = extract_loop fs"
proof -
  from assms(1) obtain kv where kv: "f = JDict kv" by (cases f) (simp_all add: is_dict_def)
  with assms(2) have "(case map_of kv ''key'' of Some v \<Rightarrow> v | None \<Rightarrow> JNull) \<noteq> JStr ''xsubject''"
    by (auto simp: is_xsubject_def split: option.splits)
  with kv show ?thesis by simp
qed

lemma extract_loop_absent:
  "list_all is_dict fs \<Longrightarrow> find is_xsubject fs = None \<Longrightarrow> extract_loop fs = Inr []"
proof (induction fs)
  case Nil
  then show ?case by simp
next
  case (Cons f fs)
  from Cons.prems have f: "is_dict f" "\<not> is_xsubject f"
    and rest: "list_all is_dict fs" "find is_xsubject fs = None"
    by (simp_all split: if_splits)
  from extract_loop_skip [OF f] Cons.IH [OF rest] show ?case by simp
qed

lemma extract_loop_present:
  assumes "find is_xsubject fs = Some f"
    and "list_all is_dict (takeWhile (\<lambda>x. \<not> is_xsubject x) fs)"
    and "dict_get f ''items'' (JList []) = Inr its"
    and "py_iter its = Inr items"
    and "list_all2 subject_of items subs"
  shows "extract_loop fs = Inr subs"
  using assms(1,2)
proof (induction fs)
  case Nil
  then show ?case by simp
next
  case (Cons g fs)
  show ?case
  proof (cases "is_xsubject g")
    case True
    with Cons.prems(1) have g: "g = f" by simp
    from True g obtain kv where kv: "f = JDict kv" "map_of kv ''key'' = Some (JStr ''xsubject'')"
      by (cases f) (simp_all add: is_xsubject_def)
    from kv have "extract_loop (f # fs) =
        (case dict_get f ''items'' (JList []) of
           Inl e \<Rightarrow> Inl e
         | Inr its \<Rightarrow> (case py_iter its of Inl e \<Rightarrow> Inl e | Inr items \<Rightarrow> subject_items items))"
      by simp
    with assms(3,4) subject_items_of [OF assms(5)] g show ?thesis by simp
  next
    case False
    with Cons.prems have "is_dict g" "find is_xsubject fs = Some f"
      "list_all is_dict (takeWhile (\<lambda>x. \<not> is_xsubject x) fs)"
      by simp_all
    with extract_loop_skip [OF this(1) False] Cons.IH show ?thesis by simp
  qed
qed

text \<open>
  C3. In a record returned by \<open>fetch_subjects_for_leaf\<close>, an \<open>error\<close> other than \<^verbatim>\<open>None\<close> comes
  with the empty \<open>subjects\<close> list, and with \<open>error\<close> equal to \<^verbatim>\<open>None\<close> the fetch returned a
  payload and \<open>subjects\<close> holds, in the order of the response, the \<open>{id, name}\<close> pairs of the
  items of the first filter in \<open>data.filters\<close> whose key is \<open>xsubject\<close>, or nothing when there
  is no such filter. Conversely, when the fetch returns a payload whose \<open>data.filters\<close> are
  dicts none of which has the key \<open>xsubject\<close>, the record has \<open>error\<close> \<^verbatim>\<open>None\<close> and the empty
  \<open>subjects\<close> list: the missing facet is not an error. When the filters before the first
  one with the key \<open>xsubject\<close> are dicts and each item of that filter has an \<open>id\<close> and a
  \<open>name\<close>, the record has \<open>error\<close> \<^verbatim>\<open>None\<close> and the pairs of these items as \<open>subjects\<close>.
\<close>

theorem record_subjects_spec:
  "(\<forall>r. fetch_subjects_for_leaf py ctx node = Inr r \<longrightarrow>
      (\<exists>err subs.
         dict_get r ''error'' JNull = Inr err \<and>
         dict_get r ''subjects'' JNull = Inr (JList subs) \<and>
         (err \<noteq> JNull \<longrightarrow> subs = []) \<and>
         (err = JNull \<longrightarrow>
            (\<exists>leaf_id leaf_name leaf_full_url q payload d fl fs.
               get_leaf_info py node = Inr (leaf_id, leaf_name, leaf_full_url, q) \<and>
               fetch_json py ctx (build_filters_url py q) leaf_full_url = Inr payload \<and>
               subscript payload ''data'' = Inr d \<and>
               subscript d ''filters'' = Inr fl \<and>
               py_iter fl = Inr fs \<and>
               (case find is_xsubject fs of
                  None \<Rightarrow> subs = []
                | Some f \<Rightarrow>
                    \<exists>its items. dict_get f ''items'' (JList []) = Inr its \<and>
                      py_iter its = Inr items \<and> list_all2 subject_of items subs))))) \<and>
   (\<forall>leaf_id leaf_name leaf_full_url q payload d fl fs.
      get_leaf_info py node = Inr (leaf_id, leaf_name, leaf_full_url, q) \<and>
      fetch_json py ctx (build_filters_url py q) leaf_full_url = Inr payload \<and>
      subscript payload ''data'' = Inr d \<and>
      subscript d ''filters'' = Inr fl \<and>
      py_iter fl = Inr fs \<longrightarrow>
      (list_all is_dict fs \<and> find is_xsubject fs = None \<longrightarrow>
         fetch_subjects_for_leaf py ctx node =
           Inr (JDict [(''leaf_id'', JInt leaf_id), (''leaf_name'', JStr leaf_name),
                       (''leaf_full_url'', JStr leaf_full_url), (''subjects'', JList []),
                       (''error'', JNull)])) \<and>
      (\<forall>f its items subs.
         find is_xsubject fs = Some f \<and>
         list_all is_dict (takeWhile (\<lambda>x. \<not> is_xsubject x) fs) \<and>
         dict_get f ''items'' (JList []) = Inr its \<and>
         py_iter its = Inr items \<and>
         list_all2 subject_of items subs \<longrightarrow>
         fetch_subjects_for_leaf py ctx node =
           Inr (JDict [(''leaf_id'', JInt leaf_id), (''leaf_name'', JStr leaf_name),
                       (''leaf_full_url'', JStr leaf_full_url), (''subjects'', JList subs),
                       (''error'', JNull)])))"
proof (intro conjI allI impI)
  fix r
  assume ret: "fetch_subjects_for_leaf py ctx node = Inr r"
  then obtain info where "get_leaf_info py node = Inr info"
    using fetch_subjects_raise [of py node _ ctx] by (cases "get_leaf_info py node") auto
  then obtain i n u q where g: "get_leaf_info py node = Inr (i, n, u, q)" by (cases info) auto
  show "\<exists>err subs.
         dict_get r ''error'' JNull = Inr err \<and>
         dict_get r ''subjects'' JNull = Inr (JList subs) \<and>
         (err \<noteq> JNull \<longrightarrow> subs = []) \<and>
         (err = JNull \<longrightarrow>
            (\<exists>leaf_id leaf_name leaf_full_url q payload d fl fs.
               get_leaf_info py node = Inr (leaf_id, leaf_name, leaf_full_url, q) \<and>
               fetch_json py ctx (build_filters_url py q) leaf_full_url = Inr payload \<and>
               subscript payload ''data'' = Inr d \<and>
               subscript d ''filters'' = Inr fl \<and>
               py_iter fl = Inr fs \<and>
               (case find is_xsubject fs of
                  None \<Rightarrow> subs = []
                | Some f \<Rightarrow>
                    \<exists>its items. dict_get f ''items'' (JList []) = Inr its \<and>
                      py_iter its = Inr items \<and> list_all2 subject_of items subs)))"
  proof (cases "try_block py ctx u q")
    case (Inl e)
    from fetch_subjects_failed [OF g Inl] ret
    have "r = JDict [(''leaf_id'', JInt i), (''leaf_name'', JStr n),
                     (''leaf_full_url'', JStr u), (''subjects'', JList []),
                     (''error'', JStr (exn_str py e))]" by simp
    then show ?thesis by simp
  next
    case (Inr subs)
    from fetch_subjects_ok [OF g Inr] ret
    have r: "r = JDict [(''leaf_id'', JInt i), (''leaf_name'', JStr n),
                     (''leaf_full_url'', JStr u), (''subjects'', JList subs),
                     (''error'', JNull)]" by simp
    from Inr obtain payload where p: "fetch_json py ctx (build_filters_url py q) u = Inr payload"
      "extract_subjects payload = Inr subs"
      by (auto simp: try_block_cases split: sum.splits)
    from p(2) obtain d fl fs where e: "subscript payload ''data'' = Inr d"
      "subscript d ''filters'' = Inr fl" "py_iter fl = Inr fs" "extract_loop fs = Inr subs"
      by (auto simp: extract_subjects_def split: sum.splits)
    from extract_loop_Inr [OF e(4)] g p(1) e(1,2,3) r show ?thesis by auto
  qed
next
  fix leaf_id leaf_name leaf_full_url q payload d fl fs
  assume a: "get_leaf_info py node = Inr (leaf_id, leaf_name, leaf_full_url, q) \<and>
      fetch_json py ctx (build_filters_url py q) leaf_full_url = Inr payload \<and>
      subscript payload ''data'' = Inr d \<and>
      subscript d ''filters'' = Inr fl \<and>
      py_iter fl = Inr fs"
    and b: "list_all is_dict fs \<and> find is_xsubject fs = None"
  from b have "extract_loop fs = Inr []" by (simp add: extract_loop_absent)
  with a have "try_block py ctx leaf_full_url q = Inr []"
    by (simp add: try_block_cases extract_subjects_def)
  with a show "fetch_subjects_for_leaf py ctx node =
           Inr (JDict [(''leaf_id'', JInt leaf_id), (''leaf_name'', JStr leaf_name),
                       (''leaf_full_url'', JStr leaf_full_url), (''subjects'', JList []),
                       (''error'', JNull)])"
    by (simp add: fetch_subjects_ok)
next
  fix leaf_id leaf_name leaf_full_url q payload d fl fs f its items subs
  assume a: "get_leaf_info py node = Inr (leaf_id, leaf_name, leaf_full_url, q) \<and>
      fetch_json py ctx (build_filters_url py q) leaf_full_url = Inr payload \<and>
      subscript payload ''data'' = Inr d \<and>
      subscript d ''filters'' = Inr fl \<and>
      py_iter fl = Inr fs"
    and b: "find is_xsubject fs = Some f \<and>
         list_all is_dict (takeWhile (\<lambda>x. \<not> is_xsubject x) fs) \<and>
         dict_get f ''items'' (JList []) = Inr its \<and>
         py_iter its = Inr items \<and>
         list_all2 subject_of items subs"
  from b have "extract_loop fs = Inr subs" by (blast intro: extract_loop_present)
  with a have "try_block py ctx leaf_full_url q = Inr subs"
    by (simp add: try_block_cases extract_subjects_def)
  with a show "fetch_subjects_for_leaf py ctx node =
           Inr (JDict [(''leaf_id'', JInt leaf_id), (''leaf_name'', JStr leaf_name),
                       (''leaf_full_url'', JStr leaf_full_url), (''subjects'', JList subs),
                       (''error'', JNull)])"
    by (simp add: fetch_subjects_ok)
qed

lemma shoes_leaf_info:
  "get_leaf_info sample_builtins shoes_leaf =
     Inr (7, ''Shoes'', ''https://www.wildberries.ru/catalog/shoes'', JStr ''shoes'')"
  by (simp add: get_leaf_info_def shoes_leaf_def py_strip_def py_whitespace_def is_cont_def)

theorem fetch_failure_recorded_witness:
  "get_leaf_info sample_builtins shoes_leaf =
     Inr (7, ''Shoes'', ''https://www.wildberries.ru/catalog/shoes'', JStr ''shoes'') \<and>
   fetch_json sample_builtins failing_client (build_filters_url sample_builtins (JStr ''shoes''))
     ''https://www.wildberries.ru/catalog/shoes'' = Inl (Raised ''Timeout 8000ms exceeded'') \<and>
   fetch_subjects_for_leaf sample_builtins failing_client shoes_leaf =
     Inr (JDict [(''leaf_id'', JInt 7), (''leaf_name'', JStr ''Shoes''),
                 (''leaf_full_url'', JStr ''https://www.wildberries.ru/catalog/shoes''),
                 (''subjects'', JList []), (''error'', JStr ''Timeout 8000ms exceeded'')])"
proof -
  have f: "fetch_json sample_builtins failing_client (build_filters_url sample_builtins (JStr ''shoes''))
     ''https://www.wildberries.ru/catalog/shoes'' = Inl (Raised ''Timeout 8000ms exceeded'')"
    by (simp add: fetch_json_def failing_client_def)
  from fetch_failure_recorded [OF shoes_leaf_info, of failing_client] f shoes_leaf_info
  show ?thesis by simp
qed

theorem leaf_info_outside_try_witness:
  "fetch_subjects_for_leaf sample_builtins failing_client
     (JDict [(''url'', JStr ''/catalog/shoes''), (''searchQuery'', JStr ''shoes'')]) = Inl (KeyError ''id'') \<and>
   fetch_subjects_for_leaf sample_builtins failing_client
     (JDict [(''id'', JNull), (''url'', JStr ''/catalog/shoes''), (''searchQuery'', JStr ''shoes'')]) = Inl TypeError \<and>
   fetch_subjects_for_leaf sample_builtins failing_client
     (JDict [(''id'', JInt 7), (''url'', JStr ''/catalog/shoes'')]) = Inl (KeyError ''searchQuery'')"
  using
    leaf_info_outside_try [of sample_builtins failing_client JNull TypeError
      "[(''url'', JStr ''/catalog/shoes''), (''searchQuery'', JStr ''shoes'')]"]
    leaf_info_outside_try [of sample_builtins failing_client JNull TypeError
      "[(''id'', JNull), (''url'', JStr ''/catalog/shoes''), (''searchQuery'', JStr ''shoes'')]"]
    leaf_info_outside_try [of sample_builtins failing_client JNull TypeError
      "[(''id'', JInt 7), (''url'', JStr ''/catalog/shoes'')]"]
  by simp

theorem record_subjects_spec_witness:
  "fetch_subjects_for_leaf sample_builtins brand_client shoes_leaf =
     Inr (JDict [(''leaf_id'', JInt 7), (''leaf_name'', JStr ''Shoes''),
                 (''leaf_full_url'', JStr ''https://www.wildberries.ru/catalog/shoes''),
                 (''subjects'', JList []), (''error'', JNull)]) \<and>
   fetch_subjects_for_leaf sample_builtins facet_client shoes_leaf =
     Inr (JDict [(''leaf_id'', JInt 7), (''leaf_name'', JStr ''Shoes''),
                 (''leaf_full_url'', JStr ''https://www.wildberries.ru/catalog/shoes''),
                 (''subjects'', JList [JDict [(''id'', JInt 9), (''name'', JStr ''Foo'')]]),
                 (''error'', JNull)]) \<and>
   fetch_subjects_for_leaf sample_builtins failing_client shoes_leaf =
     Inr (JDict [(''leaf_id'', JInt 7), (''leaf_name'', JStr ''Shoes''),
                 (''leaf_full_url'', JStr ''https://www.wildberries.ru/catalog/shoes''),
                 (''subjects'', JList []), (''error'', JStr ''Timeout 8000ms exceeded'')])"
proof -
  let ?u = "''https://www.wildberries.ru/catalog/shoes''"
  let ?brand = "JDict [(''key'', JStr ''fbrand''), (''items'', JList [])]"
  let ?item = "JDict [(''id'', JInt 9), (''name'', JStr ''Foo''), (''count'', JInt 3)]"
  let ?facet = "JDict [(''key'', JStr ''xsubject''), (''items'', JList [?item])]"
  have absent: "fetch_json sample_builtins brand_client (build_filters_url sample_builtins (JStr ''shoes'')) ?u =
      Inr brand_payload"
    "subscript brand_payload ''data'' = Inr (JDict [(''filters'', JList [?brand])])"
    "subscript (JDict [(''filters'', JList [?brand])]) ''filters'' = Inr (JList [?brand])"
    "py_iter (JList [?brand]) = Inr [?brand]"
    "list_all is_dict [?brand]" "find is_xsubject [?brand] = None"
    by (simp_all add: fetch_json_def brand_client_def brand_payload_def is_dict_def is_xsubject_def)
  have present: "fetch_json sample_builtins facet_client (build_filters_url sample_builtins (JStr ''shoes'')) ?u =
      Inr facet_payload"
    "subscript facet_payload ''data'' = Inr (JDict [(''filters'', JList [?brand, ?facet])])"
    "subscript (JDict [(''filters'', JList [?brand, ?facet])]) ''filters'' = Inr (JList [?brand, ?facet])"
    "py_iter (JList [?brand, ?facet]) = Inr [?brand, ?facet]"
    "find is_xsubject [?brand, ?facet] = Some ?facet"
    "list_all is_dict (takeWhile (\<lambda>x. \<not> is_xsubject x) [?brand, ?facet])"
    "dict_get ?facet ''items'' (JList []) = Inr (JList [?item])"
    "py_iter (JList [?item]) = Inr [?item]"
    "list_all2 subject_of [?item] [JDict [(''id'', JInt 9), (''name'', JStr ''Foo'')]]"
    by (simp_all add: fetch_json_def facet_client_def facet_payload_def is_dict_def is_xsubject_def
        subject_of_def)
  have failed: "fetch_subjects_for_leaf sample_builtins failing_client shoes_leaf =
     Inr (JDict [(''leaf_id'', JInt 7), (''leaf_name'', JStr ''Shoes''),
                 (''leaf_full_url'', JStr ?u),
                 (''subjects'', JList []), (''error'', JStr ''Timeout 8000ms exceeded'')])"
    using fetch_subjects_failed [OF shoes_leaf_info, of failing_client "Raised ''Timeout 8000ms exceeded''"]
    by (simp add: try_block_cases fetch_json_def failing_client_def)
  note spec = record_subjects_spec [of sample_builtins _ shoes_leaf]
  from spec [of brand_client] shoes_leaf_info absent
  have 1: "fetch_subjects_for_leaf sample_builtins brand_client shoes_leaf =
     Inr (JDict [(''leaf_id'', JInt 7), (''leaf_name'', JStr ''Shoes''),
                 (''leaf_full_url'', JStr ?u), (''subjects'', JList []), (''error'', JNull)])"
    by blast
  from spec [of facet_client] shoes_leaf_info present
  have 2: "fetch_subjects_for_leaf sample_builtins facet_client shoes_leaf =
     Inr (JDict [(''leaf_id'', JInt 7), (''leaf_name'', JStr ''Shoes''),
                 (''leaf_full_url'', JStr ?u),
                 (''subjects'', JList [JDict [(''id'', JInt 9), (''name'', JStr ''Foo'')]]),
                 (''error'', JNull)])"
    by blast
  from 1 2 failed show ?thesis by simp
qed
section \<open>Properties of the URL and of the JSON fallback\<close>

lemma quote_append: "quote (a @ b) = quote a @ quote b"
  by (simp add: quote_def)

lemma quote_blank: "quote '' '' = ''%20''"
  by (simp add: quote_def quote_byte_def always_safe_def hex_digit_def)

lemma hex_digit_range: "n < 16 \<Longrightarrow> hex_digit n \<in> set ''0123456789ABCDEF''"
  unfolding hex_digit_def by (rule nth_mem) simp

lemma of_char_div_16: "(of_char c :: nat) div 16 < 16"
proof -
  have "(of_char c :: nat) < 256" by (rule nat_of_char_less_256)
  then show ?thesis by arith
qed

lemma quote_byte_no_plus: "CHR ''+'' \<notin> set (quote_byte c)"
proof (cases "always_safe c")
  case True
  then have "c \<noteq> CHR ''+''" by (auto simp: always_safe_def)
  with True show ?thesis by (simp add: quote_byte_def)
next
  case False
  have "hex_digit (of_char c div 16) \<noteq> CHR ''+''"
    using hex_digit_range [OF of_char_div_16 [of c]] by auto
  moreover have "hex_digit (of_char c mod 16) \<noteq> CHR ''+''"
    using hex_digit_range [of "of_char c mod 16"] by auto
  ultimately show ?thesis using False by (simp add: quote_byte_def)
qed

lemma quote_no_plus: "CHR ''+'' \<notin> set (quote s)"
  by (induction s) (simp_all add: quote_def quote_byte_no_plus)

lemma build_filters_url_str:
  "build_filters_url py (JStr q) =
     ''https://search.wb.ru/exactmatch/ru/common/v18/search?appType=1&curr=rub&dest=-1257786&hide_dtype=13&lang=ru&filters=ffsubject&resultset=filters&spp=30&query='' @ quote q"
  by (simp add: build_filters_url_def EXPAND_PARAMS_def BASE_HOST_def BASE_PATH_def urlencode_def
      quote_def quote_byte_def always_safe_def)

text \<open>
  The query \<open>red shoes\<close> is sent as \<open>red%20shoes\<close>, not as \<open>red+shoes\<close>: \<open>build_filters_url\<close>
  passes \<^verbatim>\<open>quote_via=quote\<close> to \<^verbatim>\<open>urlencode\<close>.
\<close>

theorem build_filters_url_space_plus_counterexample:
  "build_filters_url sample_builtins (JStr ''red shoes'') =
     ''https://search.wb.ru/exactmatch/ru/common/v18/search?appType=1&curr=rub&dest=-1257786&hide_dtype=13&lang=ru&filters=ffsubject&resultset=filters&spp=30&query=red%20shoes'' \<and>
   build_filters_url sample_builtins (JStr ''red shoes'') \<noteq>
     ''https://search.wb.ru/exactmatch/ru/common/v18/search?appType=1&curr=rub&dest=-1257786&hide_dtype=13&lang=ru&filters=ffsubject&resultset=filters&spp=30&query=red+shoes''"
  by (simp add: build_filters_url_str quote_def quote_byte_def always_safe_def hex_digit_def)

text \<open>
  C6 (amended). For every query string, \<open>build_filters_url\<close> gives the URL of the fixed
  search endpoint whose query string is the fixed filter parameters followed by
  \<open>query=\<close> and the percent-encoded query text. A blank in the text is encoded as \<open>%20\<close>, and
  the encoded text never contains \<open>+\<close>.
\<close>

theorem build_filters_url_percent_encoded:
  "build_filters_url py (JStr q) =
     BASE_HOST @ BASE_PATH @
     ''?appType=1&curr=rub&dest=-1257786&hide_dtype=13&lang=ru&filters=ffsubject&resultset=filters&spp=30'' @
     ''&query='' @ quote q \<and>
   quote (a @ '' '' @ b) = quote a @ ''%20'' @ quote b \<and>
   CHR ''+'' \<notin> set (quote q)"
proof (intro conjI)
  show "build_filters_url py (JStr q) =
     BASE_HOST @ BASE_PATH @
     ''?appType=1&curr=rub&dest=-1257786&hide_dtype=13&lang=ru&filters=ffsubject&resultset=filters&spp=30'' @
     ''&query='' @ quote q"
    by (simp add: build_filters_url_str BASE_HOST_def BASE_PATH_def)
  show "quote (a @ '' '' @ b) = quote a @ ''%20'' @ quote b"
    by (simp only: quote_append quote_blank)
  show "CHR ''+'' \<notin> set (quote q)" by (rule quote_no_plus)
qed

theorem build_filters_url_percent_encoded_witness:
  "build_filters_url sample_builtins (JStr ''red shoes'') =
     ''https://search.wb.ru/exactmatch/ru/common/v18/search?appType=1&curr=rub&dest=-1257786&hide_dtype=13&lang=ru&filters=ffsubject&resultset=filters&spp=30&query=red%20shoes''"
  using build_filters_url_percent_encoded [of sample_builtins "''red shoes''" "''red''" "''shoes''"]
  by (simp add: BASE_HOST_def BASE_PATH_def quote_def quote_byte_def always_safe_def hex_digit_def)









section \<open>Properties of the statistics and of the subject map\<close>

lemma fetch_subjects_is_leaf_record:
  assumes "fetch_subjects_for_leaf py ctx node = Inr r"
  shows "is_leaf_record r"
proof -
  from assms obtain info where "get_leaf_info py node = Inr info"
    using fetch_subjects_raise [of py node _ ctx] by (cases "get_leaf_info py node") auto
  then obtain i n u q where g: "get_leaf_info py node = Inr (i, n, u, q)" by (cases info) auto
  show ?thesis
  proof (cases "try_block py ctx u q")
    case (Inl e)
    from fetch_subjects_failed [OF g Inl] assms show ?thesis
      by (auto simp: is_leaf_record_def)
  next
    case (Inr subs)
    from fetch_subjects_ok [OF g Inr] assms show ?thesis
      by (auto simp: is_leaf_record_def)
  qed
qed

lemma leaf_record_fields:
  assumes "is_leaf_record r"
  obtains kv i ss e where "r = JDict kv" "map_of kv ''leaf_id'' = Some (JInt i)"
    "map_of kv ''subjects'' = Some (JList ss)" "map_of kv ''error'' = Some e"
    "e = JNull \<or> (\<exists>m. e = JStr m)"
    "leaf_id_of r = i" "subjects_of r = JList ss" "error_of r = e"
proof -
  from assms obtain kv where kv: "r = JDict kv" by (cases r) (simp_all add: is_leaf_record_def)
  from assms kv obtain i where i: "map_of kv ''leaf_id'' = Some (JInt i)"
    by (auto simp: is_leaf_record_def split: option.splits json.splits)
  from assms kv obtain ss where ss: "map_of kv ''subjects'' = Some (JList ss)"
    by (auto simp: is_leaf_record_def split: option.splits json.splits)
  from assms kv obtain e where e: "map_of kv ''error'' = Some e" "e = JNull \<or> (\<exists>m. e = JStr m)"
    by (auto simp: is_leaf_record_def split: option.splits json.splits)
  show thesis
    using kv i ss e by (intro that [of kv i ss e]) (simp_all add: leaf_id_of_def subjects_of_def error_of_def)
qed

lemma falsy_error_iff: "is_leaf_record r \<Longrightarrow> falsy_error r \<longleftrightarrow> \<not> py_truthy (error_of r)"
  by (erule leaf_record_fields) (auto simp: falsy_error_def)

lemma count_ok_records:
  "list_all is_leaf_record items \<Longrightarrow> count_ok items = Inr (int (length (filter falsy_error items)))"
proof (induction items)
  case Nil
  then show ?case by simp
next
  case (Cons r rs)
  then have rec: "is_leaf_record r" and IH: "count_ok rs = Inr (int (length (filter falsy_error rs)))"
    by simp_all
  from rec obtain kv e where "r = JDict kv" "map_of kv ''error'' = Some e" "error_of r = e"
    by (rule leaf_record_fields)
  with falsy_error_iff [OF rec] IH show ?case by simp
qed

lemma map_add_snoc: "res(k \<mapsto> v) ++ map_of xs = res ++ map_of (xs @ [(k, v)])"
  by (rule ext) (simp add: map_add_def split: option.splits)

lemma subjects_loop_records:
  "list_all is_leaf_record items \<Longrightarrow>
   subjects_loop py items res = Inr (res ++ map_of (rev (map map_entry (filter falsy_error items))))"
proof (induction items arbitrary: res)
  case Nil
  then show ?case by simp
next
  case (Cons r rs)
  then have rec: "is_leaf_record r"
    and IH: "\<And>res. subjects_loop py rs res =
               Inr (res ++ map_of (rev (map map_entry (filter falsy_error rs))))"
    by simp_all
  from rec obtain kv i ss e where f: "r = JDict kv" "map_of kv ''leaf_id'' = Some (JInt i)"
    "map_of kv ''subjects'' = Some (JList ss)" "map_of kv ''error'' = Some e"
    "leaf_id_of r = i" "subjects_of r = JList ss" "error_of r = e"
    by (rule leaf_record_fields)
  show ?case
  proof (cases "falsy_error r")
    case True
    with falsy_error_iff [OF rec] f have falsy: "\<not> py_truthy e" by simp
    have v: "py_or (JList ss) (JList []) = JList ss" by (cases ss) (simp_all add: py_or_def)
    have "subjects_loop py (r # rs) res = subjects_loop py rs (res(i \<mapsto> JList ss))"
      using f falsy v by simp
    also have "\<dots> = Inr (res(i \<mapsto> JList ss) ++ map_of (rev (map map_entry (filter falsy_error rs))))"
      by (rule IH)
    also have "res(i \<mapsto> JList ss) ++ map_of (rev (map map_entry (filter falsy_error rs))) =
        res ++ map_of (rev (map map_entry (filter falsy_error (r # rs))))"
    proof -
      have "rev (map map_entry (filter falsy_error (r # rs))) =
          rev (map map_entry (filter falsy_error rs)) @ [(i, JList ss)]"
        using True f by (simp add: map_entry_def)
      then show ?thesis by (simp only: map_add_snoc)
    qed
    finally show ?thesis .
  next
    case False
    with falsy_error_iff [OF rec] f have "py_truthy e" by simp
    with f have "subjects_loop py (r # rs) res = subjects_loop py rs res" by simp
    with IH False show ?thesis by simp
  qed
qed

lemma dom_map_of_rev: "dom (map_of (rev xs)) = fst ` set xs"
  by (simp add: dom_map_of_conv_image_fst)

lemma stats_and_map_on_records:
  assumes "list_all is_leaf_record items"
  shows "leaves_stats items = Inr (int (length items), int (length (filter falsy_error items)))"
    and "subjects_map py items =
           Inr (map_of (rev (map (\<lambda>r. (leaf_id_of r, subjects_of r)) (filter falsy_error items))))"
proof -
  show "leaves_stats items = Inr (int (length items), int (length (filter falsy_error items)))"
    using count_ok_records [OF assms] by (simp add: leaves_stats_def)
  have "subjects_map py items = Inr (map_of (rev (map map_entry (filter falsy_error items))))"
    using subjects_loop_records [OF assms, of py Map.empty] by (simp add: subjects_map_def)
  moreover have "map_entry = (\<lambda>r. (leaf_id_of r, subjects_of r))"
    by (rule ext) (simp add: map_entry_def)
  ultimately show "subjects_map py items =
      Inr (map_of (rev (map (\<lambda>r. (leaf_id_of r, subjects_of r)) (filter falsy_error items))))"
    by simp
qed

text \<open>
  C8. \<open>leaves_stats\<close> and \<open>subjects_map\<close> test \<^verbatim>\<open>not r.get("error")\<close>, the truth value of the
  error, not whether it is \<^verbatim>\<open>None\<close>. On a list of leaf records \<open>leaves_stats\<close> therefore counts,
  and \<open>subjects_map\<close> keeps, the records whose \<open>error\<close> is \<^verbatim>\<open>None\<close> and also those whose \<open>error\<close>
  is the empty str. Such a record comes from a failed fetch: when the \<^verbatim>\<open>try\<close> block of
  \<open>fetch_subjects_for_leaf\<close> raises an exception whose message is empty, the record has the
  \<open>error\<close> \<^verbatim>\<open>""\<close>, which is not \<^verbatim>\<open>None\<close>, and yet the statistics of this one record are
  \<open>(1, 1)\<close>, not \<open>(1, 0)\<close>, and the leaf is in the map with no subjects.
\<close>

theorem empty_error_counted_as_success:
  "(list_all is_leaf_record items \<longrightarrow>
      leaves_stats items = Inr (int (length items), int (length (filter falsy_error items))) \<and>
      subjects_map py items =
        Inr (map_of (rev (map (\<lambda>r. (leaf_id_of r, subjects_of r)) (filter falsy_error items)))) \<and>
      (\<forall>m. subjects_map py items = Inr m \<longrightarrow>
           dom m = leaf_id_of ` {r \<in> set items. falsy_error r})) \<and>
   (get_leaf_info py node = Inr (leaf_id, leaf_name, leaf_full_url, q) \<and>
    try_block py ctx leaf_full_url q = Inl e \<and> exn_str py e = [] \<longrightarrow>
      (\<exists>r. fetch_subjects_for_leaf py ctx node = Inr r \<and>
           error_of r = JStr [] \<and> error_of r \<noteq> JNull \<and>
           leaves_stats [r] = Inr (1, 1) \<and>
           subjects_map py [r] = Inr [leaf_id \<mapsto> JList []]))"
proof (intro conjI impI)
  assume recs: "list_all is_leaf_record items"
  show "leaves_stats items = Inr (int (length items), int (length (filter falsy_error items)))"
    using recs by (rule stats_and_map_on_records)
  show smap: "subjects_map py items =
      Inr (map_of (rev (map (\<lambda>r. (leaf_id_of r, subjects_of r)) (filter falsy_error items))))"
    using recs by (rule stats_and_map_on_records)
  have "dom (map_of (rev (map (\<lambda>r. (leaf_id_of r, subjects_of r)) (filter falsy_error items)))) =
      leaf_id_of ` {r \<in> set items. falsy_error r}"
    unfolding dom_map_of_rev by force
  with smap show "\<forall>m. subjects_map py items = Inr m \<longrightarrow>
      dom m = leaf_id_of ` {r \<in> set items. falsy_error r}"
    by simp
next
  assume a: "get_leaf_info py node = Inr (leaf_id, leaf_name, leaf_full_url, q) \<and>
    try_block py ctx leaf_full_url q = Inl e \<and> exn_str py e = []"
  let ?r = "JDict [(''leaf_id'', JInt leaf_id), (''leaf_name'', JStr leaf_name),
                   (''leaf_full_url'', JStr leaf_full_url), (''subjects'', JList []),
                   (''error'', JStr [])]"
  from a have "fetch_subjects_for_leaf py ctx node = Inr ?r"
    using fetch_subjects_failed [of py node leaf_id leaf_name leaf_full_url q ctx e] by simp
  moreover have "error_of ?r = JStr []" "error_of ?r \<noteq> JNull"
    by (simp_all add: error_of_def)
  moreover have "leaves_stats [?r] = Inr (1, 1)"
    by (simp add: leaves_stats_def)
  moreover have "subjects_map py [?r] = Inr [leaf_id \<mapsto> JList []]"
    by (simp add: subjects_map_def py_or_def)
  ultimately show "\<exists>r. fetch_subjects_for_leaf py ctx node = Inr r \<and>
           error_of r = JStr [] \<and> error_of r \<noteq> JNull \<and>
           leaves_stats [r] = Inr (1, 1) \<and>
           subjects_map py [r] = Inr [leaf_id \<mapsto> JList []]"
    by blast
qed

theorem empty_error_counted_as_success_witness:
  "get_leaf_info sample_builtins shoes_leaf =
     Inr (7, ''Shoes'', ''https://www.wildberries.ru/catalog/shoes'', JStr ''shoes'') \<and>
   try_block sample_builtins silent_client ''https://www.wildberries.ru/catalog/shoes'' (JStr ''shoes'') =
     Inl (Raised []) \<and>
   fetch_subjects_for_leaf sample_builtins silent_client shoes_leaf = Inr blank_error_record \<and>
   list_all is_leaf_record [blank_error_record] \<and>
   error_of blank_error_record = JStr [] \<and>
   leaves_stats [blank_error_record] = Inr (1, 1) \<and>
   subjects_map sample_builtins [blank_error_record] = Inr [7 \<mapsto> JList []]"
proof -
  let ?u = "''https://www.wildberries.ru/catalog/shoes''"
  have t: "try_block sample_builtins silent_client ?u (JStr ''shoes'') = Inl (Raised [])"
    by (simp add: try_block_cases fetch_json_def silent_client_def)
  have f: "fetch_subjects_for_leaf sample_builtins silent_client shoes_leaf = Inr blank_error_record"
    using fetch_subjects_failed [OF shoes_leaf_info t] by (simp add: blank_error_record_def)
  have r: "list_all is_leaf_record [blank_error_record]"
    by (simp add: is_leaf_record_def blank_error_record_def)
  from empty_error_counted_as_success
    [of "[blank_error_record]" sample_builtins shoes_leaf 7 "''Shoes''" ?u "JStr ''shoes''"
        silent_client "Raised []"]
    shoes_leaf_info t f
  have "error_of blank_error_record = JStr [] \<and>
        leaves_stats [blank_error_record] = Inr (1, 1) \<and>
        subjects_map sample_builtins [blank_error_record] = Inr [7 \<mapsto> JList []]"
    by simp
  with shoes_leaf_info t f r show ?thesis by simp
qed
section \<open>Properties of the export rows\<close>

lemma subject_rows_acc:
  "subject_rows py ss rows =
     (case subject_rows py ss [] of Inl e \<Rightarrow> Inl e | Inr new \<Rightarrow> Inr (rows @ new))"
proof (induction ss arbitrary: rows)
  case Nil
  then show ?case by simp
next
  case (Cons s ss)
  show ?case
  proof (cases "subscript s ''id''")
    case (Inl e)
    then show ?thesis by simp
  next
    case i: (Inr i)
    show ?thesis
    proof (cases "py_int py i")
      case (Inl e)
      with i show ?thesis by simp
    next
      case k: (Inr k)
      show ?thesis
      proof (cases "subscript s ''name''")
        case (Inl e)
        with i k show ?thesis by simp
      next
        case n: (Inr n)
        have 1: "subject_rows py ss (rows @ [(k, py_str py n, 99)]) =
            (case subject_rows py ss [] of Inl e \<Rightarrow> Inl e
             | Inr new \<Rightarrow> Inr ((rows @ [(k, py_str py n, 99)]) @ new))"
          by (rule Cons.IH)
        have 2: "subject_rows py ss [(k, py_str py n, 99)] =
            (case subject_rows py ss [] of Inl e \<Rightarrow> Inl e
             | Inr new \<Rightarrow> Inr ([(k, py_str py n, 99)] @ new))"
          by (rule Cons.IH)
        show ?thesis using i k n by (simp add: 1 2 split: sum.splits)
      qed
    qed
  qed
qed

lemma subject_rows_levels:
  "subject_rows py ss [] = Inr new \<Longrightarrow> \<forall>r\<in>set new. level_of r = 99"
proof (induction ss arbitrary: new)
  case Nil
  then show ?case by simp
next
  case (Cons s ss)
  from Cons.prems obtain i k n where f: "subscript s ''id'' = Inr i" "py_int py i = Inr k"
    "subscript s ''name'' = Inr n" "subject_rows py ss [(k, py_str py n, 99)] = Inr new"
    by (auto split: sum.splits)
  from f(4) subject_rows_acc [of py ss "[(k, py_str py n, 99)]"]
  obtain rest where rest: "subject_rows py ss [] = Inr rest" "new = (k, py_str py n, 99) # rest"
    by (cases "subject_rows py ss []") auto
  from Cons.IH [OF rest(1)] rest(2) show ?case by (simp add: level_of_def)
qed

lemma build_loop_unfold:
  assumes "path \<noteq> []"
  shows "build_loop py (path # paths) m rows =
     (case py_iter (case m (fst (last path)) of Some v \<Rightarrow> v | None \<Rightarrow> JList []) of
        Inl e \<Rightarrow> Inl e
      | Inr ss \<Rightarrow>
          (case subject_rows py ss (rows @ tree_rows path) of
             Inl e \<Rightarrow> Inl e
           | Inr rows3 \<Rightarrow> build_loop py paths m rows3))"
proof -
  obtain i n l where last: "last path = (i, n, l)" by (cases "last path")
  show ?thesis
  proof (cases "0 < l")
    case True
    with last have tr: "rows @ tree_rows path =
        (rows @ filter (\<lambda>(pid, pname, plevel). plevel > 0) (butlast (tl path))) @ [(i, n, l)]"
      by (simp add: tree_rows_def)
    from assms last True show ?thesis unfolding tr by (simp add: Let_def)
  next
    case False
    with last have tr: "rows @ tree_rows path =
        rows @ filter (\<lambda>(pid, pname, plevel). plevel > 0) (butlast (tl path))"
      by (simp add: tree_rows_def)
    from assms last False show ?thesis unfolding tr by (simp add: Let_def)
  qed
qed

lemma path_rows_empty: "path_rows py m [] = Inl IndexError"
  by (simp add: path_rows_def)

lemma path_rows_eq:
  assumes "path \<noteq> []"
  shows "path_rows py m path =
     (case py_iter (case m (fst (last path)) of Some v \<Rightarrow> v | None \<Rightarrow> JList []) of
        Inl e \<Rightarrow> Inl e
      | Inr ss \<Rightarrow>
          (case subject_rows py ss [] of
             Inl e \<Rightarrow> Inl e
           | Inr new \<Rightarrow> Inr (tree_rows path @ new)))"
proof (cases "py_iter (case m (fst (last path)) of Some v \<Rightarrow> v | None \<Rightarrow> JList [])")
  case (Inl e)
  then show ?thesis unfolding path_rows_def build_loop_unfold [OF assms] by simp
next
  case (Inr ss)
  have acc: "subject_rows py ss ([] @ tree_rows path) =
      (case subject_rows py ss [] of Inl e \<Rightarrow> Inl e | Inr new \<Rightarrow> Inr (([] @ tree_rows path) @ new))"
    by (rule subject_rows_acc)
  show ?thesis
    unfolding path_rows_def build_loop_unfold [OF assms] Inr sum.case acc
    by (cases "subject_rows py ss []") simp_all
qed

lemma build_loop_step:
  "build_loop py (path # paths) m rows =
     (case path_rows py m path of
        Inl e \<Rightarrow> Inl e
      | Inr r1 \<Rightarrow> build_loop py paths m (rows @ r1))"
proof (cases "path = []")
  case True
  then show ?thesis by (simp add: path_rows_empty)
next
  case False
  show ?thesis
  proof (cases "py_iter (case m (fst (last path)) of Some v \<Rightarrow> v | None \<Rightarrow> JList [])")
    case (Inl e)
    then show ?thesis unfolding build_loop_unfold [OF False] path_rows_eq [OF False] by simp
  next
    case (Inr ss)
    have acc: "subject_rows py ss (rows @ tree_rows path) =
        (case subject_rows py ss [] of Inl e \<Rightarrow> Inl e
         | Inr new \<Rightarrow> Inr ((rows @ tree_rows path) @ new))"
      by (rule subject_rows_acc)
    show ?thesis
      unfolding build_loop_unfold [OF False] path_rows_eq [OF False] Inr sum.case acc
      by (cases "subject_rows py ss []") simp_all
  qed
qed

lemma build_loop_acc:
  "build_loop py paths m rows =
     (case build_loop py paths m [] of Inl e \<Rightarrow> Inl e | Inr new \<Rightarrow> Inr (rows @ new))"
proof (induction paths arbitrary: rows)
  case Nil
  then show ?case by simp
next
  case (Cons path paths)
  show ?case
  proof (cases "path_rows py m path")
    case (Inl e)
    then show ?thesis unfolding build_loop_step [of py path paths m] by simp
  next
    case (Inr r1)
    have 1: "build_loop py paths m (rows @ r1) =
        (case build_loop py paths m [] of Inl e \<Rightarrow> Inl e | Inr new \<Rightarrow> Inr ((rows @ r1) @ new))"
      by (rule Cons.IH)
    have 2: "build_loop py paths m ([] @ r1) =
        (case build_loop py paths m [] of Inl e \<Rightarrow> Inl e | Inr new \<Rightarrow> Inr (([] @ r1) @ new))"
      by (rule Cons.IH)
    show ?thesis
      unfolding build_loop_step [of py path paths m] Inr sum.case 1 2
      by (cases "build_loop py paths m []") simp_all
  qed
qed

lemma build_rows_single: "build_rows py [path] m = path_rows py m path"
  by (simp only: build_rows_def path_rows_def)

lemma build_rows_Cons:
  "build_rows py (path # paths) m =
     (case build_rows py [path] m of
        Inl e \<Rightarrow> Inl e
      | Inr r1 \<Rightarrow> (case build_rows py paths m of Inl e \<Rightarrow> Inl e | Inr r2 \<Rightarrow> Inr (r1 @ r2)))"
proof (cases "path_rows py m path")
  case (Inl e)
  then show ?thesis
    unfolding build_rows_single unfolding build_rows_def build_loop_step [of py path paths m]
    by simp
next
  case (Inr r1)
  have acc: "build_loop py paths m ([] @ r1) =
      (case build_loop py paths m [] of Inl e \<Rightarrow> Inl e | Inr new \<Rightarrow> Inr (([] @ r1) @ new))"
    by (rule build_loop_acc)
  show ?thesis
    unfolding build_rows_single unfolding build_rows_def build_loop_step [of py path paths m]
      Inr sum.case acc
    by (cases "build_loop py paths m []") simp_all
qed

lemma tree_rows_levels: "\<forall>r\<in>set (tree_rows path). level_of r \<noteq> 0"
proof -
  obtain i n l where last: "last path = (i, n, l)" by (cases "last path")
  then show ?thesis by (auto simp: tree_rows_def level_of_def)
qed

lemma build_rows_levels:
  "build_rows py paths m = Inr rows \<Longrightarrow> \<forall>r\<in>set rows. level_of r \<noteq> 0"
proof (induction paths arbitrary: rows)
  case Nil
  then show ?case by (simp add: build_rows_def)
next
  case (Cons path paths)
  from Cons.prems build_rows_Cons [of py path paths m]
  obtain r1 r2 where parts: "build_rows py [path] m = Inr r1" "build_rows py paths m = Inr r2"
    "rows = r1 @ r2"
    by (auto split: sum.splits)
  from parts(1) have ne: "path \<noteq> []"
    unfolding build_rows_single using path_rows_empty [of py m] by auto
  from parts(1) path_rows_eq [OF ne, of py m]
  obtain ss new where new: "subject_rows py ss [] = Inr new" "r1 = tree_rows path @ new"
    unfolding build_rows_single by (auto split: sum.splits)
  have "\<forall>r\<in>set (tree_rows path). level_of r \<noteq> 0" by (rule tree_rows_levels)
  moreover from subject_rows_levels [OF new(1)] have "\<forall>r\<in>set new. level_of r \<noteq> 0" by auto
  ultimately show ?case using Cons.IH [OF parts(2)] parts(3) new(2) by auto
qed

lemma build_rows_dropped:
  assumes "\<forall>path\<in>set paths. path \<noteq> [] \<and>
             (m (fst (last path)) = None \<or> m (fst (last path)) = Some (JList []))"
  shows "build_rows py paths m = Inr (concat (map tree_rows paths))"
  using assms
proof (induction paths)
  case Nil
  then show ?case by (simp add: build_rows_def)
next
  case (Cons path paths)
  then have ne: "path \<noteq> []"
    and none: "m (fst (last path)) = None \<or> m (fst (last path)) = Some (JList [])"
    and IH: "build_rows py paths m = Inr (concat (map tree_rows paths))" by simp_all
  from none have "py_iter (case m (fst (last path)) of Some v \<Rightarrow> v | None \<Rightarrow> JList []) = Inr []"
    by auto
  then have "build_rows py [path] m = Inr (tree_rows path)"
    unfolding build_rows_single path_rows_eq [OF ne] by simp
  with IH show ?case unfolding build_rows_Cons [of py path paths m] by simp
qed

lemma subjects_map_records:
  assumes "list_all is_leaf_record items"
  shows "subjects_map py items = Inr (map_of (rev (map map_entry (filter falsy_error items))))"
  using subjects_loop_records [OF assms, of py Map.empty] by (simp add: subjects_map_def)

lemma subjects_map_dropped:
  assumes "list_all is_leaf_record items"
    and "\<forall>r\<in>set items. leaf_id_of r = k \<longrightarrow> py_truthy (error_of r)"
  shows "map_of (rev (map map_entry (filter falsy_error items))) k = None"
proof -
  have "k \<notin> fst ` set (map map_entry (filter falsy_error items))"
  proof
    assume "k \<in> fst ` set (map map_entry (filter falsy_error items))"
    then obtain r where r: "r \<in> set items" "falsy_error r" "leaf_id_of r = k"
      by (auto simp: map_entry_def)
    from assms(1) r(1) have "is_leaf_record r" by (simp add: list_all_iff)
    with r(2) have "\<not> py_truthy (error_of r)" by (simp add: falsy_error_iff)
    with assms(2) r(1,3) show False by blast
  qed
  then show ?thesis by (simp add: map_of_eq_None_iff)
qed

lemma subjects_map_failed:
  assumes "\<forall>r\<in>set items. error_of r \<noteq> JNull \<longrightarrow> subjects_of r = JList []"
    and "\<forall>r\<in>set items. leaf_id_of r = k \<longrightarrow> error_of r \<noteq> JNull"
  shows "map_of (rev (map map_entry (filter falsy_error items))) k = None \<or>
         map_of (rev (map map_entry (filter falsy_error items))) k = Some (JList [])"
proof (cases "map_of (rev (map map_entry (filter falsy_error items))) k")
  case None
  then show ?thesis by simp
next
  case (Some v)
  then have "(k, v) \<in> set (rev (map map_entry (filter falsy_error items)))" by (rule map_of_SomeD)
  then obtain r where r: "r \<in> set items" "leaf_id_of r = k" "subjects_of r = v"
    by (auto simp: map_entry_def)
  from assms(2) r(1,2) have "error_of r \<noteq> JNull" by blast
  with assms(1) r(1,3) have "v = JList []" by auto
  with Some show ?thesis by simp
qed

lemma subject_rows_typed:
  "list_all is_subject ss \<Longrightarrow> subject_rows py ss [] = Inr (map subject_row ss)"
proof (induction ss)
  case Nil
  then show ?case by simp
next
  case (Cons s ss)
  then have s: "is_subject s" and IH: "subject_rows py ss [] = Inr (map subject_row ss)"
    by simp_all
  from s obtain kv where kv: "s = JDict kv" by (cases s) (simp_all add: is_subject_def)
  from s kv obtain i where i: "map_of kv ''id'' = Some (JInt i)"
    by (auto simp: is_subject_def split: option.splits json.splits)
  from s kv obtain n where n: "map_of kv ''name'' = Some (JStr n)"
    by (auto simp: is_subject_def split: option.splits json.splits)
  from kv i n have row: "subject_row s = (i, n, 99)" by (simp add: subject_row_def)
  from kv i n have "subject_rows py (s # ss) [] = subject_rows py ss ([] @ [(i, n, 99)])"
    by simp
  also have "\<dots> = (case subject_rows py ss [] of Inl e \<Rightarrow> Inl e
                     | Inr new \<Rightarrow> Inr (([] @ [(i, n, 99)]) @ new))"
    by (rule subject_rows_acc)
  also have "\<dots> = Inr ((i, n, 99) # map subject_row ss)" unfolding IH by simp
  finally show ?case using row by simp
qed

lemma build_rows_paths:
  assumes "\<forall>path\<in>set paths. path \<noteq> [] \<and>
             (\<exists>ss. py_iter (case m (fst (last path)) of Some v \<Rightarrow> v | None \<Rightarrow> JList []) = Inr ss \<and>
                   subject_rows py ss [] = Inr (f path))"
  shows "build_rows py paths m = Inr (concat (map (\<lambda>path. tree_rows path @ f path) paths))"
  using assms
proof (induction paths)
  case Nil
  then show ?case by (simp add: build_rows_def)
next
  case (Cons path paths)
  then have ne: "path \<noteq> []"
    and IH: "build_rows py paths m = Inr (concat (map (\<lambda>path. tree_rows path @ f path) paths))"
    by simp_all
  from Cons.prems obtain ss where
    ss: "py_iter (case m (fst (last path)) of Some v \<Rightarrow> v | None \<Rightarrow> JList []) = Inr ss"
      "subject_rows py ss [] = Inr (f path)"
    by auto
  have "build_rows py [path] m = Inr (tree_rows path @ f path)"
    unfolding build_rows_single path_rows_eq [OF ne] ss sum.case by (rule refl)
  with IH show ?case unfolding build_rows_Cons [of py path paths m] by simp
qed

lemma fst_map_entries: "map fst (rev (map map_entry xs)) = rev (map leaf_id_of xs)"
  by (induction xs) (simp_all add: map_entry_def)

lemma subjects_map_kept:
  assumes "distinct (map leaf_id_of items)" and "r \<in> set items" and "falsy_error r"
  shows "map_of (rev (map map_entry (filter falsy_error items))) (leaf_id_of r) =
           Some (subjects_of r)"
proof (rule map_of_is_SomeI)
  from assms(1) have "distinct (map leaf_id_of (filter falsy_error items))"
    by (rule distinct_map_filter)
  then show "distinct (map fst (rev (map map_entry (filter falsy_error items))))"
    unfolding fst_map_entries by simp
  from assms(2,3)
  show "(leaf_id_of r, subjects_of r) \<in> set (rev (map map_entry (filter falsy_error items)))"
    by (auto simp: map_entry_def)
qed

lemma leaf_rows_of_map:
  assumes recs: "list_all is_leaf_record items"
    and dist: "distinct (map leaf_id_of items)"
    and inv: "\<forall>r\<in>set items. error_of r \<noteq> JNull \<longrightarrow> subjects_of r = JList []"
    and typed: "\<forall>r\<in>set items. list_all is_subject (subject_list r)"
  shows "\<exists>ss. py_iter (case map_of (rev (map map_entry (filter falsy_error items))) k of
                        Some v \<Rightarrow> v | None \<Rightarrow> JList []) = Inr ss \<and>
              subject_rows py ss [] = Inr (leaf_subject_rows items k)"
proof (cases "find (\<lambda>r. leaf_id_of r = k \<and> error_of r = JNull) items")
  case None
  then have "\<forall>r\<in>set items. leaf_id_of r = k \<longrightarrow> error_of r \<noteq> JNull"
    by (auto simp: find_None_iff)
  from subjects_map_failed [OF inv this]
  have "py_iter (case map_of (rev (map map_entry (filter falsy_error items))) k of
                   Some v \<Rightarrow> v | None \<Rightarrow> JList []) = Inr []"
    by auto
  with None show ?thesis by (simp add: leaf_subject_rows_def)
next
  case (Some r)
  then have r: "r \<in> set items" "leaf_id_of r = k" "error_of r = JNull"
    by (auto simp: find_Some_iff)
  from r(3) have "falsy_error r" by (simp add: falsy_error_def)
  from subjects_map_kept [OF dist r(1) this] r(2)
  have sm: "map_of (rev (map map_entry (filter falsy_error items))) k = Some (subjects_of r)"
    by simp
  from recs r(1) have "is_leaf_record r" by (simp add: list_all_iff)
  then obtain ss where ss: "subjects_of r = JList ss" by (rule leaf_record_fields)
  then have sl: "subject_list r = ss" by (simp add: subject_list_def)
  with typed r(1) have "list_all is_subject ss" by auto
  then have "subject_rows py ss [] = Inr (map subject_row ss)" by (rule subject_rows_typed)
  with Some sm ss sl show ?thesis by (simp add: leaf_subject_rows_def)
qed

text \<open>
  C5. \<open>build_rows\<close> never emits a row with level 0, whatever the paths and the subject map.
  On leaf records in which an error comes with empty subjects, \<open>subjects_map\<close> does not raise
  and leaves every leaf out of the map whose records all have an error that is not empty.
  For paths whose leaves have only records with an error other than \<^verbatim>\<open>None\<close>, \<open>build_rows\<close>
  then returns, without raising, the rows of the tree alone: the ancestors and the leaf of
  each path, and no level-99 row. When moreover the records have distinct leaf ids and
  their subjects have an int \<open>id\<close> and a str \<open>name\<close>, the map holds the subjects of every
  record without error and no entry for a record with a non-empty error, and \<open>build_rows\<close>
  returns for each path its tree rows followed by the level-99 rows of the subjects of the
  leaf's record without error, if there is one: dropping the records with errors removes
  the subject rows of their leaves and nothing else. The rows of a list of paths are the
  rows of its paths one after the other.
\<close>

theorem build_rows_spec:
  "(\<forall>rows. build_rows py paths m = Inr rows \<longrightarrow> (\<forall>r\<in>set rows. level_of r \<noteq> 0)) \<and>
   (list_all is_leaf_record items \<and>
    (\<forall>r\<in>set items. error_of r \<noteq> JNull \<longrightarrow> subjects_of r = JList []) \<and>
    (\<forall>path\<in>set paths. path \<noteq> [] \<and>
       (\<forall>r\<in>set items. leaf_id_of r = fst (last path) \<longrightarrow> error_of r \<noteq> JNull)) \<longrightarrow>
      (\<exists>sm. subjects_map py items = Inr sm \<and>
            (\<forall>k. (\<forall>r\<in>set items. leaf_id_of r = k \<longrightarrow> py_truthy (error_of r)) \<longrightarrow>
                 sm k = None) \<and>
            build_rows py paths sm = Inr (concat (map tree_rows paths)))) \<and>
   (list_all is_leaf_record items \<and>
    distinct (map leaf_id_of items) \<and>
    (\<forall>r\<in>set items. error_of r \<noteq> JNull \<longrightarrow> subjects_of r = JList []) \<and>
    (\<forall>r\<in>set items. list_all is_subject (subject_list r)) \<and>
    (\<forall>path\<in>set paths. path \<noteq> []) \<longrightarrow>
      (\<exists>sm. subjects_map py items = Inr sm \<and>
            (\<forall>r\<in>set items. error_of r = JNull \<longrightarrow> sm (leaf_id_of r) = Some (subjects_of r)) \<and>
            (\<forall>r\<in>set items. py_truthy (error_of r) \<longrightarrow> sm (leaf_id_of r) = None) \<and>
            build_rows py paths sm =
              Inr (concat (map (\<lambda>path. tree_rows path @ leaf_subject_rows items (fst (last path)))
                     paths)))) \<and>
   build_rows py (path # paths) m =
     (case build_rows py [path] m of
        Inl e \<Rightarrow> Inl e
      | Inr r1 \<Rightarrow> (case build_rows py paths m of Inl e \<Rightarrow> Inl e | Inr r2 \<Rightarrow> Inr (r1 @ r2)))"
proof (intro conjI allI impI)
  fix rows
  assume "build_rows py paths m = Inr rows"
  then show "\<forall>r\<in>set rows. level_of r \<noteq> 0" by (rule build_rows_levels)
next
  assume a: "list_all is_leaf_record items \<and>
    (\<forall>r\<in>set items. error_of r \<noteq> JNull \<longrightarrow> subjects_of r = JList []) \<and>
    (\<forall>path\<in>set paths. path \<noteq> [] \<and>
       (\<forall>r\<in>set items. leaf_id_of r = fst (last path) \<longrightarrow> error_of r \<noteq> JNull))"
  then have recs: "list_all is_leaf_record items"
    and inv: "\<forall>r\<in>set items. error_of r \<noteq> JNull \<longrightarrow> subjects_of r = JList []"
    by simp_all
  let ?sm = "map_of (rev (map map_entry (filter falsy_error items)))"
  have sm: "subjects_map py items = Inr ?sm" using recs by (rule subjects_map_records)
  have dropped: "\<forall>k. (\<forall>r\<in>set items. leaf_id_of r = k \<longrightarrow> py_truthy (error_of r)) \<longrightarrow>
      ?sm k = None"
    using subjects_map_dropped [OF recs] by blast
  have "\<forall>path\<in>set paths. path \<noteq> [] \<and>
      (?sm (fst (last path)) = None \<or> ?sm (fst (last path)) = Some (JList []))"
  proof
    fix path
    assume p: "path \<in> set paths"
    with a have ne: "path \<noteq> []"
      and err: "\<forall>r\<in>set items. leaf_id_of r = fst (last path) \<longrightarrow> error_of r \<noteq> JNull"
      by auto
    from subjects_map_failed [OF inv err] ne
    show "path \<noteq> [] \<and>
      (?sm (fst (last path)) = None \<or> ?sm (fst (last path)) = Some (JList []))" by simp
  qed
  then have "build_rows py paths ?sm = Inr (concat (map tree_rows paths))"
    by (rule build_rows_dropped)
  with sm dropped show "\<exists>sm. subjects_map py items = Inr sm \<and>
            (\<forall>k. (\<forall>r\<in>set items. leaf_id_of r = k \<longrightarrow> py_truthy (error_of r)) \<longrightarrow>
                 sm k = None) \<and>
            build_rows py paths sm = Inr (concat (map tree_rows paths))" by blast
next
  assume a: "list_all is_leaf_record items \<and>
    distinct (map leaf_id_of items) \<and>
    (\<forall>r\<in>set items. error_of r \<noteq> JNull \<longrightarrow> subjects_of r = JList []) \<and>
    (\<forall>r\<in>set items. list_all is_subject (subject_list r)) \<and>
    (\<forall>path\<in>set paths. path \<noteq> [])"
  then have recs: "list_all is_leaf_record items"
    and dist: "distinct (map leaf_id_of items)"
    and inv: "\<forall>r\<in>set items. error_of r \<noteq> JNull \<longrightarrow> subjects_of r = JList []"
    and typed: "\<forall>r\<in>set items. list_all is_subject (subject_list r)"
    and ne: "\<forall>path\<in>set paths. path \<noteq> []"
    by simp_all
  let ?sm = "map_of (rev (map map_entry (filter falsy_error items)))"
  have sm: "subjects_map py items = Inr ?sm" using recs by (rule subjects_map_records)
  have kept: "\<forall>r\<in>set items. error_of r = JNull \<longrightarrow> ?sm (leaf_id_of r) = Some (subjects_of r)"
    using subjects_map_kept [OF dist] by (simp add: falsy_error_def)
  have dropped: "\<forall>r\<in>set items. py_truthy (error_of r) \<longrightarrow> ?sm (leaf_id_of r) = None"
  proof (intro ballI impI)
    fix r
    assume r: "r \<in> set items" "py_truthy (error_of r)"
    have "\<forall>r'\<in>set items. leaf_id_of r' = leaf_id_of r \<longrightarrow> py_truthy (error_of r')"
    proof (intro ballI impI)
      fix r'
      assume "r' \<in> set items" "leaf_id_of r' = leaf_id_of r"
      with dist r(1) have "r' = r" by (auto simp: distinct_map dest: inj_onD)
      with r(2) show "py_truthy (error_of r')" by simp
    qed
    with subjects_map_dropped [OF recs] show "?sm (leaf_id_of r) = None" by blast
  qed
  have "\<forall>path\<in>set paths. path \<noteq> [] \<and>
      (\<exists>ss. py_iter (case ?sm (fst (last path)) of Some v \<Rightarrow> v | None \<Rightarrow> JList []) = Inr ss \<and>
            subject_rows py ss [] = Inr (leaf_subject_rows items (fst (last path))))"
    using ne leaf_rows_of_map [OF recs dist inv typed] by blast
  then have "build_rows py paths ?sm =
      Inr (concat (map (\<lambda>path. tree_rows path @ leaf_subject_rows items (fst (last path))) paths))"
    by (rule build_rows_paths)
  with sm kept dropped show "\<exists>sm. subjects_map py items = Inr sm \<and>
            (\<forall>r\<in>set items. error_of r = JNull \<longrightarrow> sm (leaf_id_of r) = Some (subjects_of r)) \<and>
            (\<forall>r\<in>set items. py_truthy (error_of r) \<longrightarrow> sm (leaf_id_of r) = None) \<and>
            build_rows py paths sm =
              Inr (concat (map (\<lambda>path. tree_rows path @ leaf_subject_rows items (fst (last path)))
                     paths))"
    by blast
next
  show "build_rows py (path # paths) m =
     (case build_rows py [path] m of
        Inl e \<Rightarrow> Inl e
      | Inr r1 \<Rightarrow> (case build_rows py paths m of Inl e \<Rightarrow> Inl e | Inr r2 \<Rightarrow> Inr (r1 @ r2)))"
    by (rule build_rows_Cons)
qed

theorem build_rows_spec_witness:
  "list_all is_leaf_record [facet_record, promo_timeout_record] \<and>
   distinct (map leaf_id_of [facet_record, promo_timeout_record]) \<and>
   subjects_map sample_builtins [facet_record, promo_timeout_record] =
     Inr [7 \<mapsto> JList [JDict [(''id'', JInt 9), (''name'', JStr ''Foo'')]]] \<and>
   build_rows sample_builtins
     [[(1, ''Wear'', 0), (7, ''Shoes'', 1)], [(1, ''Wear'', 0), (8, ''Promo'', 1)]]
     [7 \<mapsto> JList [JDict [(''id'', JInt 9), (''name'', JStr ''Foo'')]]] =
     Inr [(7, ''Shoes'', 1), (9, ''Foo'', 99), (8, ''Promo'', 1)] \<and>
   list_all (\<lambda>r. level_of r \<noteq> 0) [(7, ''Shoes'', 1), (9, ''Foo'', 99), (8, ''Promo'', 1)] \<and>
   subjects_map sample_builtins [promo_timeout_record] = Inr Map.empty \<and>
   build_rows sample_builtins [[(1, ''Wear'', 0), (8, ''Promo'', 1)]] Map.empty =
     Inr [(8, ''Promo'', 1)]"
proof -
  let ?items = "[facet_record, promo_timeout_record]"
  let ?paths = "[[(1, ''Wear'', 0), (7, ''Shoes'', 1)], [(1, ''Wear'', 0), (8, ''Promo'', 1)]] :: row list list"
  let ?sm = "[7 \<mapsto> JList [JDict [(''id'', JInt 9), (''name'', JStr ''Foo'')]]]"
  let ?rows = "[(7, ''Shoes'', 1), (9, ''Foo'', 99), (8, ''Promo'', 1)] :: row list"
  have recs: "list_all is_leaf_record ?items"
    by (simp add: is_leaf_record_def facet_record_def promo_timeout_record_def)
  have ids: "leaf_id_of facet_record = 7" "leaf_id_of promo_timeout_record = 8"
    by (simp_all add: leaf_id_of_def facet_record_def promo_timeout_record_def)
  have errs: "error_of facet_record = JNull"
    "error_of promo_timeout_record = JStr ''Timeout 8000ms exceeded''"
    by (simp_all add: error_of_def facet_record_def promo_timeout_record_def)
  have subs: "subjects_of facet_record = JList [JDict [(''id'', JInt 9), (''name'', JStr ''Foo'')]]"
    "subjects_of promo_timeout_record = JList []"
    by (simp_all add: subjects_of_def facet_record_def promo_timeout_record_def)
  have dist: "distinct (map leaf_id_of ?items)" by (simp add: ids)
  have typed: "\<forall>r\<in>set ?items. list_all is_subject (subject_list r)"
    by (simp add: subject_list_def subs is_subject_def)
  have inv: "\<forall>r\<in>set ?items. error_of r \<noteq> JNull \<longrightarrow> subjects_of r = JList []"
    by (simp add: errs subs)
  have sm: "subjects_map sample_builtins ?items = Inr ?sm"
    by (simp add: subjects_map_def facet_record_def promo_timeout_record_def py_or_def)
  have expected: "concat (map (\<lambda>path. tree_rows path @ leaf_subject_rows ?items (fst (last path))) ?paths) =
      ?rows"
    by (simp add: tree_rows_def leaf_subject_rows_def ids errs subs subject_list_def subject_row_def)
  note spec = build_rows_spec [of sample_builtins ?paths ?sm ?items]
  have hyp: "list_all is_leaf_record ?items \<and>
    distinct (map leaf_id_of ?items) \<and>
    (\<forall>r\<in>set ?items. error_of r \<noteq> JNull \<longrightarrow> subjects_of r = JList []) \<and>
    (\<forall>r\<in>set ?items. list_all is_subject (subject_list r)) \<and>
    (\<forall>path\<in>set ?paths. path \<noteq> [])"
    using recs dist inv typed by simp
  from spec [THEN conjunct2, THEN conjunct2, THEN conjunct1, THEN mp, OF hyp]
  obtain sm' where "subjects_map sample_builtins ?items = Inr sm'"
    "build_rows sample_builtins ?paths sm' =
       Inr (concat (map (\<lambda>path. tree_rows path @ leaf_subject_rows ?items (fst (last path))) ?paths))"
    by blast
  with sm have rows: "build_rows sample_builtins ?paths ?sm = Inr ?rows"
    unfolding expected by simp
  from spec [THEN conjunct1] rows have "\<forall>r\<in>set ?rows. level_of r \<noteq> 0" by blast
  then have levels: "list_all (\<lambda>r. level_of r \<noteq> 0) ?rows" by (simp only: list_all_iff)
  let ?promo = "[[(1, ''Wear'', 0), (8, ''Promo'', 1)]] :: row list list"
  have recs2: "list_all is_leaf_record [promo_timeout_record]"
    using recs by simp
  have sm2: "subjects_map sample_builtins [promo_timeout_record] = Inr Map.empty"
    by (simp add: subjects_map_def promo_timeout_record_def)
  have tr: "concat (map tree_rows ?promo) = [(8, ''Promo'', 1)]"
    by (simp add: tree_rows_def)
  have hyp2: "list_all is_leaf_record [promo_timeout_record] \<and>
    (\<forall>r\<in>set [promo_timeout_record]. error_of r \<noteq> JNull \<longrightarrow> subjects_of r = JList []) \<and>
    (\<forall>path\<in>set ?promo. path \<noteq> [] \<and>
       (\<forall>r\<in>set [promo_timeout_record]. leaf_id_of r = fst (last path) \<longrightarrow> error_of r \<noteq> JNull))"
    using recs2 by (simp add: errs subs)
  from build_rows_spec [of sample_builtins ?promo Map.empty "[promo_timeout_record]",
      THEN conjunct2, THEN conjunct1, THEN mp, OF hyp2]
  obtain sm'' where "subjects_map sample_builtins [promo_timeout_record] = Inr sm''"
    "build_rows sample_builtins ?promo sm'' = Inr (concat (map tree_rows ?promo))"
    by blast
  with sm2 have rows2: "build_rows sample_builtins ?promo Map.empty = Inr [(8, ''Promo'', 1)]"
    unfolding tr by simp
  from recs dist sm rows levels sm2 rows2 show ?thesis by blast
qed
section \<open>Properties of the orchestrator\<close>









end
